theory Spec2Isabelle
  imports Complex_Main
begin

section \<open>JavaScript strings\<close>

text \<open>
  A JavaScript string is a sequence of UTF-16 code units; \<open>length\<close>, \<open>slice\<close>, \<open>trim\<close>,
  \<open>split\<close> and the regular expressions of the program all work on code units. A code unit is
  modelled as a natural number (the euro sign is the single unit 0x20AC), a string as a list.
  \<open>js\<close> writes an ASCII literal.
\<close>

type_synonym jschar = nat
type_synonym jsstring = "jschar list"

definition js :: "string \<Rightarrow> jsstring" where
  "js s = map of_char s"

definition EURO_SIGN :: jschar where
  "EURO_SIGN = 8364"

text \<open>
  The characters of \<open>\s\<close> and of \<open>String.prototype.trim\<close> (WhiteSpace and LineTerminator of
  ECMAScript): TAB, LF, VT, FF, CR, SPACE, NBSP, U+1680, U+2000..U+200A, LS, PS, U+202F,
  U+205F, U+3000, U+FEFF.
\<close>

definition is_space :: "jschar \<Rightarrow> bool" where
  "is_space c \<longleftrightarrow>
     (9 \<le> c \<and> c \<le> 13) \<or> c = 32 \<or> c = 160 \<or> c = 5760 \<or> (8192 \<le> c \<and> c \<le> 8202) \<or>
     c = 8232 \<or> c = 8233 \<or> c = 8239 \<or> c = 8287 \<or> c = 12288 \<or> c = 65279"

definition is_digit :: "jschar \<Rightarrow> bool" where
  "is_digit c \<longleftrightarrow> 48 \<le> c \<and> c \<le> 57"

text \<open>The word characters of \<open>\b\<close>: \<open>[A-Za-z0-9_]\<close>.\<close>

definition is_word :: "jschar \<Rightarrow> bool" where
  "is_word c \<longleftrightarrow> (65 \<le> c \<and> c \<le> 90) \<or> (97 \<le> c \<and> c \<le> 122) \<or> is_digit c \<or> c = 95"

text \<open>
  Case folding. \<open>canon\<close> is the Canonicalize of a regular expression with the \<open>i\<close> flag and
  without the \<open>u\<close> flag, and \<open>toUpperCase\<close> is \<open>String.prototype.toUpperCase\<close>, both on the
  characters this program applies them to: ASCII letters are folded to upper case and every
  other code unit is kept. (Every pattern character of the program's regular expressions is
  ASCII or the euro sign, no non-ASCII code unit canonicalizes to one of those, and
  \<open>toUpperCase\<close> is only applied to a matched currency token.)
\<close>

definition canon :: "jschar \<Rightarrow> jschar" where
  "canon c = (if 97 \<le> c \<and> c \<le> 122 then c - 32 else c)"

definition toUpperCase :: "jsstring \<Rightarrow> jsstring" where
  "toUpperCase s = map canon s"

definition trim :: "jsstring \<Rightarrow> jsstring" where
  "trim s = rev (dropWhile is_space (rev (dropWhile is_space s)))"

text \<open>\<open>s.slice(0, n)\<close> for \<open>n \<ge> 0\<close>.\<close>

definition slice0 :: "nat \<Rightarrow> jsstring \<Rightarrow> jsstring" where
  "slice0 n s = take n s"

text \<open>\<open>s.replace(a, b)\<close> with a one-character string pattern: the first occurrence only.\<close>

fun replace_first :: "jschar \<Rightarrow> jschar \<Rightarrow> jsstring \<Rightarrow> jsstring" where
  "replace_first a b [] = []"
| "replace_first a b (c # cs) = (if c = a then b # cs else c # replace_first a b cs)"

text \<open>\<open>text.split(/\r?\n/)\<close>: the pieces between line breaks, a line break being LF or CR LF.\<close>

fun split_lines :: "jsstring \<Rightarrow> jsstring list" where
  "split_lines [] = [[]]"
| "split_lines (c # cs) =
     (if c = 10 then [] # split_lines cs
      else if c = 13 \<and> cs \<noteq> [] \<and> hd cs = 10 then [] # split_lines (tl cs)
      else (case split_lines cs of
              [] \<Rightarrow> [[c]]
            | l # ls \<Rightarrow> (c # l) # ls))"

section \<open>Regular expressions\<close>

text \<open>
  The fragment of ECMAScript regular expressions the program uses, with ECMAScript's
  backtracking semantics: a character class, a greedy or lazy quantifier on a class,
  sequence, ordered alternation, a capture group and the word boundary.
\<close>

datatype cls =
    Lit jschar
  | Digit
  | Space
  | AnyChar
  | AnyOf "jschar list"
  | NoneOf "jschar list"

datatype rx =
    C cls
  | Star cls
  | LazyStar cls
  | Plus cls
  | Opt cls
  | WordB
  | Eps
  | Seq rx rx
  | Alt rx rx
  | Group nat rx

text \<open>Whether a class accepts a character; \<open>ic\<close> is the \<open>i\<close> flag.\<close>

fun cls_mem :: "bool \<Rightarrow> cls \<Rightarrow> jschar \<Rightarrow> bool" where
  "cls_mem ic (Lit a) c = (if ic then canon a = canon c else a = c)"
| "cls_mem ic Digit c = is_digit c"
| "cls_mem ic Space c = is_space c"
| "cls_mem ic AnyChar c = True"
| "cls_mem ic (AnyOf as) c = list_ex (\<lambda>a. if ic then canon a = canon c else a = c) as"
| "cls_mem ic (NoneOf as) c = (\<not> list_ex (\<lambda>a. if ic then canon a = canon c else a = c) as)"

text \<open>A literal string as a sequence of its characters.\<close>

fun lit :: "jsstring \<Rightarrow> rx" where
  "lit [] = Eps"
| "lit [c] = C (Lit c)"
| "lit (c # cs) = Seq (C (Lit c)) (lit cs)"

type_synonym caps = "nat \<Rightarrow> jsstring option"

text \<open>
  The matcher runs a stack of pending work against the rest of the input: \<open>R r\<close> is a regular
  expression still to match, \<open>Close n s0\<close> ends capture group \<open>n\<close>, which began where the
  input was \<open>s0\<close>. \<open>p\<close> is the character before the current position (for \<open>\b\<close>), \<open>s\<close> the input
  from the current position on, \<open>c\<close> the captures so far. The result is the first match in
  backtracking order: the last character consumed, the input left after the match, and the
  captures. An alternative or a quantifier that fails later is retried with its next choice,
  and the captures of the failed attempt are dropped.
\<close>

datatype frame = R rx | Close nat jsstring

fun rx_weight :: "rx \<Rightarrow> nat" where
  "rx_weight (C k) = 1"
| "rx_weight (Star k) = 1"
| "rx_weight (LazyStar k) = 1"
| "rx_weight (Plus k) = 3"
| "rx_weight (Opt k) = 1"
| "rx_weight WordB = 1"
| "rx_weight Eps = 1"
| "rx_weight (Seq a b) = Suc (rx_weight a + rx_weight b)"
| "rx_weight (Alt a b) = Suc (rx_weight a + rx_weight b)"
| "rx_weight (Group n a) = Suc (Suc (rx_weight a))"

fun frame_weight :: "frame \<Rightarrow> nat" where
  "frame_weight (R r) = rx_weight r"
| "frame_weight (Close n s0) = 1"

function (sequential) run ::
  "bool \<Rightarrow> frame list \<Rightarrow> jschar option \<Rightarrow> jsstring \<Rightarrow> caps \<Rightarrow> (jschar option \<times> jsstring \<times> caps) option"
where
  "run ic [] p s c = Some (p, s, c)"
| "run ic (R (C k) # fs) p [] c = None"
| "run ic (R (C k) # fs) p (x # xs) c =
     (if cls_mem ic k x then run ic fs (Some x) xs c else None)"
| "run ic (R (Star k) # fs) p [] c = run ic fs p [] c"
| "run ic (R (Star k) # fs) p (x # xs) c =
     (if cls_mem ic k x
      then (case run ic (R (Star k) # fs) (Some x) xs c of
              Some r \<Rightarrow> Some r
            | None \<Rightarrow> run ic fs p (x # xs) c)
      else run ic fs p (x # xs) c)"
| "run ic (R (LazyStar k) # fs) p [] c = run ic fs p [] c"
| "run ic (R (LazyStar k) # fs) p (x # xs) c =
     (case run ic fs p (x # xs) c of
        Some r \<Rightarrow> Some r
      | None \<Rightarrow> if cls_mem ic k x then run ic (R (LazyStar k) # fs) (Some x) xs c else None)"
| "run ic (R (Plus k) # fs) p s c = run ic (R (C k) # R (Star k) # fs) p s c"
| "run ic (R (Opt k) # fs) p [] c = run ic fs p [] c"
| "run ic (R (Opt k) # fs) p (x # xs) c =
     (if cls_mem ic k x
      then (case run ic fs (Some x) xs c of
              Some r \<Rightarrow> Some r
            | None \<Rightarrow> run ic fs p (x # xs) c)
      else run ic fs p (x # xs) c)"
| "run ic (R WordB # fs) p s c =
     (if (case p of None \<Rightarrow> False | Some a \<Rightarrow> is_word a)
         \<noteq> (case s of [] \<Rightarrow> False | x # xs \<Rightarrow> is_word x)
      then run ic fs p s c else None)"
| "run ic (R Eps # fs) p s c = run ic fs p s c"
| "run ic (R (Seq a b) # fs) p s c = run ic (R a # R b # fs) p s c"
| "run ic (R (Alt a b) # fs) p s c =
     (case run ic (R a # fs) p s c of
        Some r \<Rightarrow> Some r
      | None \<Rightarrow> run ic (R b # fs) p s c)"
| "run ic (R (Group n a) # fs) p s c = run ic (R a # Close n s # fs) p s c"
| "run ic (Close n s0 # fs) p s c =
     run ic fs p s (c(n := Some (take (length s0 - length s) s0)))"
  by pat_completeness auto
termination
  by (relation "inv_image (less_than <*lex*> less_than)
        (\<lambda>(ic, fs, p, s, c). (length s, sum_list (map frame_weight fs)))") auto

text \<open>
  \<open>RegExp.prototype.exec\<close> from a position: the leftmost position at which the expression
  matches. The result is the text skipped before the match, the last character of the
  match, the input left after it, and the captures.
\<close>

fun search ::
  "bool \<Rightarrow> rx \<Rightarrow> jschar option \<Rightarrow> jsstring \<Rightarrow> (jsstring \<times> jschar option \<times> jsstring \<times> caps) option"
where
  "search ic r p [] =
     (case run ic [R r] p [] (\<lambda>n. None) of
        None \<Rightarrow> None
      | Some (p', s', c) \<Rightarrow> Some ([], p', s', c))"
| "search ic r p (x # xs) =
     (case run ic [R r] p (x # xs) (\<lambda>n. None) of
        Some (p', s', c) \<Rightarrow> Some ([], p', s', c)
      | None \<Rightarrow>
          (case search ic r (Some x) xs of
             None \<Rightarrow> None
           | Some (sk, p', s', c) \<Rightarrow> Some (x # sk, p', s', c)))"

text \<open>\<open>str.match(re)\<close> for an expression without the \<open>g\<close> flag: the captures of the first match.\<close>

definition str_match :: "bool \<Rightarrow> rx \<Rightarrow> jsstring \<Rightarrow> caps option" where
  "str_match ic r s =
     (case search ic r None s of
        None \<Rightarrow> None
      | Some (sk, p', s', c) \<Rightarrow> Some c)"


section \<open>Numbers\<close>

text \<open>
  A JavaScript number is an IEEE 754 double. \<open>Num d\<close> is the finite double whose value is the
  rational \<open>d\<close>; only non-negative numbers occur in this program.

  \<open>round_double q\<close> is the double nearest to \<open>q\<close>, ties to even, before the overflow check:
  the spacing of doubles around \<open>q\<close> is \<open>2 ^ (e - 52)\<close> for \<open>2 ^ e \<le> q < 2 ^ (e + 1)\<close>, and
  \<open>2 ^ (- 1074)\<close> below the smallest normal number.
\<close>

datatype jsnumber = NaN | Infinity | Num rat

fun isFinite :: "jsnumber \<Rightarrow> bool" where
  "isFinite (Num d) = True"
| "isFinite NaN = False"
| "isFinite Infinity = False"

fun bitlen :: "nat \<Rightarrow> nat" where
  "bitlen n = (if n = 0 then 0 else Suc (bitlen (n div 2)))"

declare bitlen.simps [simp del]

text \<open>The exponent \<open>e\<close> of a positive value: \<open>2 ^ e \<le> q < 2 ^ (e + 1)\<close>.\<close>

definition double_exp :: "rat \<Rightarrow> int" where
  "double_exp q =
     (if 1 \<le> q then int (bitlen (nat \<lfloor>q\<rfloor>)) - 1
      else let k = int (bitlen (nat \<lfloor>1 / q\<rfloor>)) - 1
           in if 2 powi (- k) \<le> q then - k else - k - 1)"

definition round_half_even :: "rat \<Rightarrow> int" where
  "round_half_even x =
     (let f = \<lfloor>x\<rfloor>; r = x - of_int f
      in if r < 1 / 2 then f else if 1 / 2 < r then f + 1 else if even f then f else f + 1)"

definition round_double :: "rat \<Rightarrow> rat" where
  "round_double q =
     (if q \<le> 0 then 0
      else let u = max (double_exp q) (- 1022) - 52
           in of_int (round_half_even (q / 2 powi u)) * 2 powi u)"

text \<open>The Number value of a non-negative mathematical value: infinite from \<open>2 ^ 1024\<close> on.\<close>

definition to_number :: "rat \<Rightarrow> jsnumber" where
  "to_number q = (let d = round_double q in if 2 ^ 1024 \<le> d then Infinity else Num d)"

text \<open>
  \<open>Number(s)\<close> on the strings the program passes to it, which consist of decimal digits,
  \<open>.\<close> and \<open>,\<close> only. On these, the string is a numeric literal when it is empty (value 0),
  or digits, or digits with one point before, inside or after them; anything else is NaN.
\<close>

definition digits_val :: "jsstring \<Rightarrow> nat" where
  "digits_val ds = foldl (\<lambda>a c. 10 * a + (c - 48)) 0 ds"

definition Number_js :: "jsstring \<Rightarrow> jsnumber" where
  "Number_js s =
     (let ip = takeWhile is_digit s; r = dropWhile is_digit s
      in if r = [] then to_number (of_nat (digits_val ip))
         else if hd r = 46 \<and> list_all is_digit (tl r) \<and> (ip \<noteq> [] \<or> tl r \<noteq> [])
         then to_number (of_nat (digits_val ip) + of_nat (digits_val (tl r)) / 10 ^ length (tl r))
         else NaN)"

section \<open>The loose pricing pass\<close>

text \<open>\<open>PricingItem\<close> of the scrape route; \<open>None\<close> is \<open>null\<close>.\<close>

record PricingItem =
  label :: "jsstring option"
  amount :: "jsnumber option"
  currency :: "jsstring option"
  rawLine :: jsstring

text \<open>
  \<open>/(?:(\d+[.,]?\d*)\s*(\<euro>|eur|euro|\$|usd)|(\$)\s*(\d+[.,]?\d*))/i\<close>
\<close>

definition number_rx :: rx where
  "number_rx = Seq (Plus Digit) (Seq (Opt (AnyOf (js ''.,''))) (Star Digit))"

definition currency_rx :: rx where
  "currency_rx =
     Alt (lit [EURO_SIGN]) (Alt (lit (js ''eur'')) (Alt (lit (js ''euro''))
       (Alt (lit (js ''$'')) (lit (js ''usd'')))))"

definition priceRegex :: rx where
  "priceRegex =
     Alt (Seq (Group 1 number_rx) (Seq (Star Space) (Group 2 currency_rx)))
         (Seq (Group 3 (lit (js ''$''))) (Seq (Star Space) (Group 4 number_rx)))"

definition MAX_ITEMS :: nat where
  "MAX_ITEMS = 50"

text \<open>Truthiness of a capture: a group that took part in the match with a non-empty text.\<close>

fun truthy_str :: "jsstring option \<Rightarrow> bool" where
  "truthy_str None = False"
| "truthy_str (Some s) = (s \<noteq> [])"

text \<open>
  The body of the loop for one line: \<open>None\<close> when the iteration ends in \<open>continue\<close>, the item
  pushed otherwise.
\<close>

definition line_item :: "jsstring \<Rightarrow> PricingItem option" where
  "line_item line =
     (case str_match True priceRegex line of
        None \<Rightarrow> None
      | Some m \<Rightarrow>
          (let (amountStr, currency) =
                 (if truthy_str (m 1) \<and> truthy_str (m 2) then
                    (let cur = toUpperCase (the (m 2))
                     in (m 1,
                         if cur = [EURO_SIGN] \<or> cur = js ''EURO'' \<or> cur = js ''EUR''
                         then Some (js ''EUR'')
                         else if cur = js ''$'' \<or> cur = js ''USD'' then Some (js ''USD'')
                         else Some cur))
                  else if truthy_str (m 3) \<and> truthy_str (m 4) then (m 4, Some (js ''USD''))
                  else (None, None))
           in if \<not> truthy_str amountStr then None
              else (let normalized = replace_first 44 46 (the amountStr);
                        amount = Number_js normalized
                    in if \<not> isFinite amount then None
                       else Some \<lparr>label = Some (slice0 120 line), amount = Some amount,
                                  currency = currency, rawLine = line\<rparr>)))"

text \<open>The \<open>for\<close> loop over the lines, with its \<open>break\<close> once \<open>MAX_ITEMS\<close> items are collected.\<close>

fun price_loop :: "jsstring list \<Rightarrow> PricingItem list \<Rightarrow> PricingItem list" where
  "price_loop [] items = items"
| "price_loop (line # lines) items =
     (if MAX_ITEMS \<le> length items then items
      else (case line_item line of
              None \<Rightarrow> price_loop lines items
            | Some it \<Rightarrow> price_loop lines (items @ [it])))"

text \<open>\<open>extractPricingFromText\<close>; the argument is \<open>None\<close> for \<open>null\<close> or \<open>undefined\<close>.\<close>

definition text_lines :: "jsstring \<Rightarrow> jsstring list" where
  "text_lines text = filter (\<lambda>line. 0 < length line) (map trim (split_lines text))"

definition extractPricingFromText :: "jsstring option \<Rightarrow> PricingItem list" where
  "extractPricingFromText text =
     (case text of
        None \<Rightarrow> []
      | Some t \<Rightarrow> if t = [] then [] else price_loop (text_lines t) [])"


section \<open>Vocabulary for the statements about the loose pass\<close>

text \<open>The five currency tokens of the expression, in upper case.\<close>

definition upper_token :: "jsstring \<Rightarrow> bool" where
  "upper_token t \<longleftrightarrow> t = [EURO_SIGN] \<or> t = js ''EUR'' \<or> t = js ''EURO'' \<or> t = js ''$'' \<or> t = js ''USD''"


text \<open>
  The texts \<open>\d+[.,]?\d*\<close> can match in full: digits, then possibly one of \<open>.\<close> and \<open>,\<close>
  followed by digits.
\<close>

definition is_amount_text :: "jsstring \<Rightarrow> bool" where
  "is_amount_text d \<longleftrightarrow>
     (let a = takeWhile is_digit d; r = dropWhile is_digit d
      in a \<noteq> [] \<and> (r = [] \<or> ((hd r = 46 \<or> hd r = 44) \<and> list_all is_digit (tl r))))"




section \<open>The matcher: what a successful run consumed\<close>

lemma run_C_Some:
  "run ic (R (C k) # fs) p s c = Some res \<longleftrightarrow>
     (\<exists>x xs. s = x # xs \<and> cls_mem ic k x \<and> run ic fs (Some x) xs c = Some res)"
  by (cases s) auto

lemma run_Star_Some:
  "run ic (R (Star k) # fs) p s c = Some res \<Longrightarrow>
     \<exists>u v p'. s = u @ v \<and> list_all (cls_mem ic k) u \<and> run ic fs p' v c = Some res"
proof (induction s arbitrary: p)
  case Nil
  then show ?case by auto
next
  case (Cons x xs)
  show ?case
  proof (cases "cls_mem ic k x \<and> run ic (R (Star k) # fs) (Some x) xs c \<noteq> None")
    case True
    then have "run ic (R (Star k) # fs) (Some x) xs c = Some res"
      using Cons.prems by auto
    from Cons.IH [OF this] obtain u v p' where
      "xs = u @ v" "list_all (cls_mem ic k) u" "run ic fs p' v c = Some res" by blast
    with True have "x # xs = (x # u) @ v \<and> list_all (cls_mem ic k) (x # u)
        \<and> run ic fs p' v c = Some res" by simp
    then show ?thesis by blast
  next
    case False
    then have "run ic fs p (x # xs) c = Some res"
      using Cons.prems by (auto split: if_splits option.splits)
    then have "x # xs = [] @ (x # xs) \<and> list_all (cls_mem ic k) [] \<and> run ic fs p (x # xs) c = Some res"
      by simp
    then show ?thesis by blast
  qed
qed

lemma run_Opt_Some:
  "run ic (R (Opt k) # fs) p s c = Some res \<Longrightarrow>
     \<exists>u v p'. s = u @ v \<and> length u \<le> 1 \<and> list_all (cls_mem ic k) u \<and> run ic fs p' v c = Some res"
proof (cases s)
  case Nil
  assume "run ic (R (Opt k) # fs) p s c = Some res"
  with Nil have "s = [] @ [] \<and> length ([]::jsstring) \<le> 1 \<and> list_all (cls_mem ic k) [] \<and> run ic fs p [] c = Some res"
    by simp
  then show ?thesis by blast
next
  case (Cons x xs)
  assume a: "run ic (R (Opt k) # fs) p s c = Some res"
  show ?thesis
  proof (cases "cls_mem ic k x \<and> run ic fs (Some x) xs c \<noteq> None")
    case True
    with a Cons have "s = [x] @ xs \<and> length [x] \<le> 1 \<and> list_all (cls_mem ic k) [x] \<and> run ic fs (Some x) xs c = Some res"
      by auto
    then show ?thesis by blast
  next
    case False
    with a Cons have "s = [] @ s \<and> length ([]::jsstring) \<le> 1 \<and> list_all (cls_mem ic k) [] \<and> run ic fs p s c = Some res"
      by (auto split: if_splits option.splits)
    then show ?thesis by blast
  qed
qed

lemma run_Plus_Some:
  assumes "run ic (R (Plus k) # fs) p s c = Some res"
  shows "\<exists>u v p'. s = u @ v \<and> u \<noteq> [] \<and> list_all (cls_mem ic k) u \<and> run ic fs p' v c = Some res"
proof -
  from assms have "run ic (R (C k) # R (Star k) # fs) p s c = Some res" by simp
  then obtain x xs where x: "s = x # xs" "cls_mem ic k x"
      "run ic (R (Star k) # fs) (Some x) xs c = Some res"
    unfolding run_C_Some by blast
  from run_Star_Some [OF x(3)] obtain u v p' where
    "xs = u @ v" "list_all (cls_mem ic k) u" "run ic fs p' v c = Some res" by blast
  with x have "s = (x # u) @ v \<and> x # u \<noteq> [] \<and> list_all (cls_mem ic k) (x # u) \<and> run ic fs p' v c = Some res"
    by simp
  then show ?thesis by blast
qed

lemma run_Alt_Some:
  "run ic (R (Alt a b) # fs) p s c = Some res \<Longrightarrow>
     run ic (R a # fs) p s c = Some res \<or> run ic (R b # fs) p s c = Some res"
  by (auto split: option.splits)

lemma canon_cases:
  "canon x = 69 \<longleftrightarrow> x = 69 \<or> x = 101"
  "canon x = 85 \<longleftrightarrow> x = 85 \<or> x = 117"
  "canon x = 82 \<longleftrightarrow> x = 82 \<or> x = 114"
  "canon x = 79 \<longleftrightarrow> x = 79 \<or> x = 111"
  "canon x = 83 \<longleftrightarrow> x = 83 \<or> x = 115"
  "canon x = 68 \<longleftrightarrow> x = 68 \<or> x = 100"
  "canon x = 36 \<longleftrightarrow> x = 36"
  "canon x = 8364 \<longleftrightarrow> x = 8364"
  by (auto simp: canon_def)

lemma currency_match:
  assumes "run True [R (Group 2 currency_rx)] p s c = Some (p', s', c')"
  shows "\<exists>tok. c' = c(2 := Some tok) \<and> s = tok @ s' \<and> tok \<noteq> [] \<and> upper_token (toUpperCase tok)"
proof -
  have cn: "canon 8364 = 8364" "canon 101 = 69" "canon 117 = 85" "canon 114 = 82"
    "canon 111 = 79" "canon 36 = 36" "canon 115 = 83" "canon 100 = 68"
    by (simp_all add: canon_def)
  from assms have
    "run True [R (lit [EURO_SIGN]), Close 2 s] p s c = Some (p', s', c') \<or>
     run True [R (lit (js ''eur'')), Close 2 s] p s c = Some (p', s', c') \<or>
     run True [R (lit (js ''euro'')), Close 2 s] p s c = Some (p', s', c') \<or>
     run True [R (lit (js ''$'')), Close 2 s] p s c = Some (p', s', c') \<or>
     run True [R (lit (js ''usd'')), Close 2 s] p s c = Some (p', s', c')"
    unfolding currency_rx_def run.simps by (auto split: option.splits)
  then show ?thesis
    by (auto simp: js_def EURO_SIGN_def run_C_Some cn upper_token_def toUpperCase_def)
qed

lemma amount_text_digits:
  assumes "u1 \<noteq> []" "list_all is_digit u1"
  shows "is_amount_text u1"
proof -
  have t: "takeWhile is_digit u1 = u1" and d: "dropWhile is_digit u1 = []"
    using assms(2) by (simp_all add: list_all_iff)
  show ?thesis unfolding is_amount_text_def Let_def t d using assms(1) by simp
qed

lemma amount_text_sep:
  assumes "u1 \<noteq> []" "list_all is_digit u1" "x = 46 \<or> x = 44" "list_all is_digit u3"
  shows "is_amount_text (u1 @ x # u3)"
proof -
  have nd: "\<not> is_digit x" using assms(3) by (auto simp: is_digit_def)
  have t: "takeWhile is_digit (u1 @ x # u3) = u1"
    and d: "dropWhile is_digit (u1 @ x # u3) = x # u3"
    using assms(2) nd by (auto simp: list_all_iff takeWhile_append2 dropWhile_append2)
  show ?thesis unfolding is_amount_text_def Let_def t d using assms by simp
qed

lemma number_match:
  assumes "run True (R (Group n number_rx) # fs) p s c = Some res"
  shows "\<exists>u v p'. s = u @ v \<and> is_amount_text u \<and> run True fs p' v (c(n := Some u)) = Some res"
proof -
  from assms have "run True (R (Plus Digit) # R (Seq (Opt (AnyOf (js ''.,''))) (Star Digit)) # Close n s # fs) p s c = Some res"
    by (simp add: number_rx_def del: run.simps(8))
  from run_Plus_Some [OF this] obtain u1 v1 p1 where 1: "s = u1 @ v1" "u1 \<noteq> []" "list_all (cls_mem True Digit) u1"
    "run True (R (Opt (AnyOf (js ''.,''))) # R (Star Digit) # Close n s # fs) p1 v1 c = Some res" by auto
  from run_Opt_Some [OF 1(4)] obtain u2 v2 p2 where 2: "v1 = u2 @ v2" "length u2 \<le> 1"
    "list_all (cls_mem True (AnyOf (js ''.,''))) u2"
    "run True (R (Star Digit) # Close n s # fs) p2 v2 c = Some res" by blast
  from run_Star_Some [OF 2(4)] obtain u3 v3 p3 where 3: "v2 = u3 @ v3" "list_all (cls_mem True Digit) u3"
    "run True (Close n s # fs) p3 v3 c = Some res" by blast
  have s: "s = (u1 @ u2 @ u3) @ v3" using 1 2 3 by simp
  have r: "run True fs p3 v3 (c(n := Some (u1 @ u2 @ u3))) = Some res"
    using 3(3) unfolding s by simp
  have d1: "list_all is_digit u1" and d3: "list_all is_digit u3"
    using 1(3) 3(2) by (simp_all add: list_all_iff)
  have "is_amount_text (u1 @ u2 @ u3)"
  proof (cases u2)
    case Nil
    show ?thesis
    proof (cases u3)
      case Nil
      with \<open>u2 = []\<close> show ?thesis using amount_text_digits [OF 1(2) d1] by simp
    next
      case (Cons y ys)
      have "is_amount_text (u1 @ u3)"
        by (rule amount_text_digits) (use 1(2) d1 d3 in auto)
      with \<open>u2 = []\<close> show ?thesis by simp
    qed
  next
    case (Cons x xs)
    with 2(2) have xs: "xs = []" by simp
    from 2(3) Cons have "x = 46 \<or> x = 44"
      by (auto simp: js_def canon_def split: if_splits)
    from amount_text_sep [OF 1(2) d1 this d3] show ?thesis using Cons xs by simp
  qed
  with s r show ?thesis by blast
qed

lemma price_match_caps:
  assumes "run True [R priceRegex] p s (\<lambda>n. None) = Some (p', s', m)"
  shows "(\<exists>u tok. m = (\<lambda>n. None)(1 := Some u, 2 := Some tok) \<and> is_amount_text u
            \<and> tok \<noteq> [] \<and> upper_token (toUpperCase tok))
       \<or> (\<exists>u. m = (\<lambda>n. None)(3 := Some (js ''$''), 4 := Some u) \<and> is_amount_text u)"
proof -
  from assms have
    "run True [R (Group 1 number_rx), R (Seq (Star Space) (Group 2 currency_rx))] p s (\<lambda>n. None) = Some (p', s', m)
     \<or> run True [R (Group 3 (lit (js ''$''))), R (Seq (Star Space) (Group 4 number_rx))] p s (\<lambda>n. None) = Some (p', s', m)"
    unfolding priceRegex_def by (auto split: option.splits)
  then show ?thesis
  proof
    assume "run True [R (Group 1 number_rx), R (Seq (Star Space) (Group 2 currency_rx))] p s (\<lambda>n. None) = Some (p', s', m)"
    from number_match [OF this] obtain u v p1 where 1: "is_amount_text u"
      "run True [R (Star Space), R (Group 2 currency_rx)] p1 v ((\<lambda>n. None)(1 := Some u)) = Some (p', s', m)"
      by auto
    from run_Star_Some [OF 1(2)] obtain v2 p2 where
      "run True [R (Group 2 currency_rx)] p2 v2 ((\<lambda>n. None)(1 := Some u)) = Some (p', s', m)" by blast
    from currency_match [OF this] 1(1) show ?thesis by blast
  next
    assume "run True [R (Group 3 (lit (js ''$''))), R (Seq (Star Space) (Group 4 number_rx))] p s (\<lambda>n. None) = Some (p', s', m)"
    then obtain x xs where x: "s = x # xs" "canon x = 36"
      "run True [R (Star Space), R (Group 4 number_rx)] (Some x) xs ((\<lambda>n. None)(3 := Some [x])) = Some (p', s', m)"
      by (auto simp: js_def run_C_Some canon_def split: if_splits)
    then have x36: "x = 36" by (simp add: canon_cases)
    from run_Star_Some [OF x(3)] obtain v2 p2 where
      "run True [R (Group 4 number_rx)] p2 v2 ((\<lambda>n. None)(3 := Some [x])) = Some (p', s', m)" by blast
    from number_match [OF this] obtain u where "is_amount_text u" "m = (\<lambda>n. None)(3 := Some [x], 4 := Some u)"
      by auto
    with x36 show ?thesis by (auto simp: js_def)
  qed
qed

lemma search_Some:
  "search ic r p s = Some (sk, p', s', c) \<Longrightarrow> \<exists>p0 s0. run ic [R r] p0 s0 (\<lambda>n. None) = Some (p', s', c)"
proof (induction s arbitrary: p sk)
  case Nil
  then show ?case by (auto split: option.splits)
next
  case (Cons x xs)
  then show ?case by (auto split: option.splits)
qed

lemma amount_text_nonempty: "is_amount_text u \<Longrightarrow> u \<noteq> []"
  by (auto simp: is_amount_text_def)

lemma str_match_caps:
  assumes "str_match True priceRegex line = Some m"
  shows "(\<exists>u tok. m = (\<lambda>n. None)(1 := Some u, 2 := Some tok) \<and> is_amount_text u
            \<and> tok \<noteq> [] \<and> upper_token (toUpperCase tok))
       \<or> (\<exists>u. m = (\<lambda>n. None)(3 := Some (js ''$''), 4 := Some u) \<and> is_amount_text u)"
proof -
  from assms obtain sk p' s' where "search True priceRegex None line = Some (sk, p', s', m)"
    by (auto simp: str_match_def split: option.splits)
  from search_Some [OF this] obtain p0 s0 where
    "run True [R priceRegex] p0 s0 (\<lambda>n. None) = Some (p', s', m)" by blast
  from price_match_caps [OF this] show ?thesis .
qed

lemma isFinite_Num: "isFinite a \<Longrightarrow> \<exists>d. a = Num d"
  by (cases a) auto

lemma line_item_Some:
  assumes "line_item line = Some it"
  shows "(\<exists>d. amount it = Some (Num d))
       \<and> (currency it = Some (js ''EUR'') \<or> currency it = Some (js ''USD''))
       \<and> rawLine it = line \<and> label it = Some (slice0 120 line)"
proof -
  from assms obtain m where m: "str_match True priceRegex line = Some m"
    by (auto simp: line_item_def split: option.splits)
  from str_match_caps [OF m] show ?thesis
  proof
    assume "\<exists>u tok. m = (\<lambda>n. None)(1 := Some u, 2 := Some tok) \<and> is_amount_text u
            \<and> tok \<noteq> [] \<and> upper_token (toUpperCase tok)"
    then obtain u tok where c: "m = (\<lambda>n. None)(1 := Some u, 2 := Some tok)" "u \<noteq> []"
      "tok \<noteq> []" "upper_token (toUpperCase tok)"
      using amount_text_nonempty by blast
    from assms show ?thesis
      unfolding line_item_def m using c(2,3,4)
      by (auto simp: c(1) Let_def upper_token_def js_def EURO_SIGN_def
          split: if_splits dest: isFinite_Num)
  next
    assume "\<exists>u. m = (\<lambda>n. None)(3 := Some (js ''$''), 4 := Some u) \<and> is_amount_text u"
    then obtain u where c: "m = (\<lambda>n. None)(3 := Some (js ''$''), 4 := Some u)" "u \<noteq> []"
      using amount_text_nonempty by blast
    from assms show ?thesis
      unfolding line_item_def m using c(2)
      by (auto simp: c(1) Let_def js_def split: if_splits dest: isFinite_Num)
  qed
qed

lemma price_loop_eq:
  "price_loop lines items =
     items @ take (MAX_ITEMS - length items) (List.map_filter line_item lines)"
proof (induction lines arbitrary: items)
  case Nil
  then show ?case by (simp add: List.map_filter_simps)
next
  case (Cons line lines)
  show ?case
  proof (cases "MAX_ITEMS \<le> length items")
    case True
    then show ?thesis by simp
  next
    case False
    then obtain k where k: "MAX_ITEMS - length items = Suc k"
      by (cases "MAX_ITEMS - length items") auto
    then have k': "MAX_ITEMS - Suc (length items) = k" by simp
    show ?thesis
      using False by (simp add: Cons.IH List.map_filter_simps k k' split: option.splits)
  qed
qed

lemma extract_eq:
  "extractPricingFromText (Some t) =
     (if t = [] then [] else take MAX_ITEMS (List.map_filter line_item (text_lines t)))"
  by (simp add: extractPricingFromText_def price_loop_eq)

lemma trim_edges:
  assumes "trim s \<noteq> []"
  shows "\<not> is_space (hd (trim s)) \<and> \<not> is_space (last (trim s))"
proof -
  let ?ys = "dropWhile is_space s"
  let ?xs = "dropWhile is_space (rev ?ys)"
  from assms have xs: "?xs \<noteq> []" by (simp add: trim_def)
  have ys: "?ys \<noteq> []"
  proof
    assume "?ys = []"
    then have "?xs = []" by (simp only: rev.simps dropWhile.simps)
    with xs show False by contradiction
  qed
  have 1: "\<not> is_space (hd ?xs)" using xs by (rule hd_dropWhile)
  have 2: "\<not> is_space (hd ?ys)" using ys by (rule hd_dropWhile)
  have "last ?xs = last (rev ?ys)"
  proof -
    have "rev ?ys = takeWhile is_space (rev ?ys) @ ?xs" by simp
    then show ?thesis using xs by (metis last_appendR)
  qed
  then have 3: "last ?xs = hd ?ys" using ys by (simp add: last_rev)
  have "hd (trim s) = last ?xs" using xs by (simp add: trim_def hd_rev)
  moreover have "last (trim s) = hd ?xs" using xs by (simp add: trim_def last_rev)
  ultimately show ?thesis using 1 2 3 by simp
qed

lemma extract_item:
  assumes "it \<in> set (extractPricingFromText text)"
  shows "\<exists>t l. text = Some t \<and> l \<in> set (split_lines t) \<and> trim l \<noteq> [] \<and> line_item (trim l) = Some it"
proof -
  from assms obtain t where t: "text = Some t" "t \<noteq> []"
    by (cases "text") (auto simp: extractPricingFromText_def split: if_splits)
  with assms have "it \<in> set (take MAX_ITEMS (List.map_filter line_item (text_lines t)))"
    by (simp add: extract_eq)
  then have "it \<in> set (List.map_filter line_item (text_lines t))"
    by (rule in_set_takeD)
  then obtain line where "line \<in> set (text_lines t)" "line_item line = Some it"
    by (auto simp: List.map_filter_def)
  with t show ?thesis by (auto simp: text_lines_def)
qed

















section \<open>Evaluation of the loose pass on example lines\<close>

lemma floor_rat_numeral: "\<lfloor>numeral a / numeral b :: rat\<rfloor> = numeral a div numeral b"
  using floor_divide_of_int_eq [of "numeral a" "numeral b", where ?'a = rat] by simp

lemmas price_eval =
  line_item_def str_match_def priceRegex_def currency_rx_def number_rx_def js_def
  EURO_SIGN_def is_digit_def is_space_def canon_def toUpperCase_def slice0_def
  Number_js_def digits_val_def Let_def

lemmas double_eval =
  round_double_def double_exp_def round_half_even_def bitlen.simps Let_def power_int_minus
  floor_rat_numeral





lemma number_js_49: "Number_js (js ''49'') = Num 49"
proof -
  have b: "bitlen 49 = 6" by (simp add: bitlen.simps)
  have "double_exp 49 = 5" by (simp add: double_exp_def b)
  then have "round_double 49 = 49"
    by (simp add: round_double_def round_half_even_def Let_def power_int_minus floor_rat_numeral)
  then show ?thesis
    by (simp add: Number_js_def js_def is_digit_def digits_val_def to_number_def)
qed








section \<open>The scraping library: text normalization\<close>

text \<open>A sequence of expressions.\<close>

fun seqs :: "rx list \<Rightarrow> rx" where
  "seqs [] = Eps"
| "seqs [r] = r"
| "seqs (r # rs) = Seq r (seqs rs)"

text \<open>
  \<open>str.replace(re, rep)\<close> for an expression with the \<open>g\<close> flag and a replacement text without
  \<open>$\<close> patterns: every match, found from left to right, is replaced. After an empty match the
  search resumes one character further on.
\<close>

function replace_all :: "bool \<Rightarrow> rx \<Rightarrow> jsstring \<Rightarrow> jschar option \<Rightarrow> jsstring \<Rightarrow> jsstring" where
  "replace_all ic r rep p s =
     (case search ic r p s of
        None \<Rightarrow> s
      | Some (sk, p', s', c) \<Rightarrow>
          if length sk + length s' < length s then sk @ rep @ replace_all ic r rep p' s'
          else (case drop (length sk) s of
                  [] \<Rightarrow> sk @ rep
                | x # xs \<Rightarrow> sk @ rep @ x # replace_all ic r rep (Some x) xs))"
  by pat_completeness auto
termination
proof (relation "measure (\<lambda>(ic, r, rep, p, s). length s)", goal_cases)
  case 1
  then show ?case by simp
next
  case (2 ic r rep p s x2 sk y p' ya s' c)
  then show ?case by simp
next
  case (3 ic r rep p s x2 sk y p' ya s' c x xs)
  have "length (drop (length sk) s) \<le> length s" by simp
  with 3 show ?case by simp
qed

declare replace_all.simps [simp del]

definition scriptRegex :: rx where
  "scriptRegex = seqs [lit (js ''<script''), LazyStar AnyChar, lit (js ''</script>'')]"

definition styleRegex :: rx where
  "styleRegex = seqs [lit (js ''<style''), LazyStar AnyChar, lit (js ''</style>'')]"

definition blockCloseRegex :: rx where
  "blockCloseRegex =
     seqs [lit (js ''</''),
           Group 1 (Alt (lit (js ''p'')) (Alt (lit (js ''div''))
             (Alt (Seq (lit (js ''h'')) (C (AnyOf (js ''123456''))))
             (Alt (lit (js ''li'')) (Alt (lit (js ''section'')) (Alt (lit (js ''article''))
             (Alt (lit (js ''header'')) (Alt (lit (js ''footer'')) (Alt (lit (js ''tr''))
               (lit (js ''br''))))))))))),
           lit (js ''>'')]"

definition tagRegex :: rx where
  "tagRegex = seqs [lit (js ''<''), Plus (NoneOf (js ''>'')), lit (js ''>'')]"

definition cleanHtmlToText :: "jsstring \<Rightarrow> jsstring" where
  "cleanHtmlToText rawHtml =
     (let output = rawHtml;
          output = replace_all True scriptRegex (js '' '') None output;
          output = replace_all True styleRegex (js '' '') None output;
          output = replace_all True blockCloseRegex [10] None output;
          output = replace_all False tagRegex (js '' '') None output;
          output = replace_all False (C (Lit 13)) [] None output;
          output = replace_all False (seqs [C (Lit 10), C (Lit 10), Plus (Lit 10)]) [10, 10] None output;
          output = replace_all False (Plus (AnyOf [32, 9])) (js '' '') None output;
          output = trim output;
          maxLength = 15000
      in if maxLength < length output then slice0 maxLength output else output)"


section \<open>The scraping library: the structured pricing pass\<close>

text \<open>\<open>PricingItem\<close> of the scraping library; \<open>availability\<close> is \<open>None\<close> when undefined.\<close>

record PricingItem_lib =
  sku :: jsstring
  name :: jsstring
  price :: jsnumber
  currency_lib :: jsstring
  availability :: "jsstring option"

definition parsePriceFromString :: "jsstring \<Rightarrow> jsnumber option" where
  "parsePriceFromString raw =
     (let cleaned = replace_first 44 46
            (filter (\<lambda>c. is_digit c \<or> c = 46 \<or> c = 44) (filter (\<lambda>c. \<not> is_space c) raw));
          v = Number_js cleaned
      in if \<not> isFinite v then None else Some v)"

definition articleRegex :: rx where
  "articleRegex =
     seqs [lit (js ''<article''), WordB, Star (NoneOf (js ''>'')), lit (js ''data-sku='' @ [34]),
           Group 1 (Plus (NoneOf [34])), lit [34], Star (NoneOf (js ''>'')), lit (js ''>''),
           Group 2 (LazyStar AnyChar), lit (js ''</article>'')]"

definition nameRegex :: rx where
  "nameRegex =
     seqs [lit (js ''class='' @ [34]), Star (NoneOf [34]), lit (js ''product-name''),
           Star (NoneOf [34]), lit [34], Star (NoneOf (js ''>'')), lit (js ''>''),
           Group 1 (Plus (NoneOf (js ''<''))), lit (js ''</h''), C (AnyOf (js ''123456'')),
           lit (js ''>'')]"

definition priceDataRegex :: rx where
  "priceDataRegex =
     seqs [lit (js ''class='' @ [34]), Star (NoneOf [34]), lit (js ''product-price''),
           Star (NoneOf [34]), lit [34], Star (NoneOf (js ''>'')), lit (js ''data-price='' @ [34]),
           Group 1 (Plus (NoneOf [34])), lit [34]]"

definition priceTextRegex :: rx where
  "priceTextRegex =
     seqs [lit (js ''class='' @ [34]), Star (NoneOf [34]), lit (js ''product-price''),
           Star (NoneOf [34]), lit [34], Star (NoneOf (js ''>'')), lit (js ''>''),
           Group 1 (Plus (NoneOf (js ''<''))), lit (js ''</p>'')]"

definition availabilityRegex :: rx where
  "availabilityRegex =
     seqs [lit (js ''class='' @ [34]), Star (NoneOf [34]), lit (js ''product-availability''),
           Star (NoneOf [34]), lit [34], Star (NoneOf (js ''>'')), lit (js ''>''),
           Group 1 (Plus (NoneOf (js ''<''))), lit (js ''</p>'')]"

text \<open>
  The body of the \<open>while\<close> loop for one match of \<open>articleRegex\<close>: \<open>None\<close> when the iteration ends
  in \<open>continue\<close>, the item pushed otherwise.
\<close>

definition article_item :: "caps \<Rightarrow> PricingItem_lib option" where
  "article_item articleMatch =
     (let skuText = the (articleMatch 1);
          articleHtml = the (articleMatch 2);
          nameMatch = str_match True nameRegex articleHtml;
          priceDataMatch = str_match True priceDataRegex articleHtml;
          priceTextMatch = str_match True priceTextRegex articleHtml;
          availabilityMatch = str_match True availabilityRegex articleHtml
      in if nameMatch = None \<or> (priceDataMatch = None \<and> priceTextMatch = None) then None
         else (let nameText = trim (the (the nameMatch 1));
                   rawPrice =
                     (if priceDataMatch \<noteq> None \<and> truthy_str (the priceDataMatch 1)
                      then the (the priceDataMatch 1)
                      else if priceTextMatch \<noteq> None \<and> truthy_str (the priceTextMatch 1)
                      then the (the priceTextMatch 1)
                      else [])
               in case parsePriceFromString rawPrice of
                    None \<Rightarrow> None
                  | Some priceValue \<Rightarrow>
                      Some \<lparr>sku = skuText, name = nameText, price = priceValue, currency_lib = js ''EUR'',
                            availability =
                              (case availabilityMatch of
                                 None \<Rightarrow> None
                               | Some m \<Rightarrow> Some (trim (the (m 1))))\<rparr>))"

lemma run_length:
  "run ic fs p s c = Some (p', s', c') \<Longrightarrow> length s' \<le> length s"
  by (induction ic fs p s c rule: run.induct) (auto split: if_splits option.splits)

lemma search_length:
  "search ic r p s = Some (sk, p', s', c) \<Longrightarrow> length sk + length s' \<le> length s"
proof (induction s arbitrary: p sk)
  case Nil
  then show ?case by (auto split: option.splits dest: run_length)
next
  case (Cons x xs)
  then show ?case by (fastforce split: option.splits dest: run_length)
qed

lemma search_run:
  "search ic r p s = Some (sk, p', s', c) \<Longrightarrow>
     \<exists>p0. run ic [R r] p0 (drop (length sk) s) (\<lambda>n. None) = Some (p', s', c)"
proof (induction s arbitrary: p sk)
  case Nil
  then show ?case by (auto split: option.splits)
next
  case (Cons x xs)
  then show ?case by (fastforce split: option.splits)
qed

lemma article_match_consumes:
  assumes "search True articleRegex p s = Some (sk, p', s', c)"
  shows "length s' < length s"
proof -
  from search_run [OF assms] obtain p0 where
    r: "run True [R articleRegex] p0 (drop (length sk) s) (\<lambda>n. None) = Some (p', s', c)" by blast
  have "\<exists>r1 r2. articleRegex = Seq (Seq (C (Lit 60)) r1) r2"
    by (simp add: articleRegex_def js_def)
  then obtain r1 r2 where a: "articleRegex = Seq (Seq (C (Lit 60)) r1) r2" by blast
  from r have "run True [R (C (Lit 60)), R r1, R r2] p0 (drop (length sk) s) (\<lambda>n. None)
       = Some (p', s', c)"
    unfolding a by simp
  then obtain x xs where "drop (length sk) s = x # xs"
    "run True [R r1, R r2] (Some x) xs (\<lambda>n. None) = Some (p', s', c)"
    unfolding run_C_Some by blast
  then have "length s' \<le> length xs" "length xs < length (drop (length sk) s)"
    by (auto dest: run_length)
  then show ?thesis by simp
qed

text \<open>
  The \<open>while\<close> loop of \<open>extractPricingFromHtml\<close>: \<open>articleRegex.exec\<close> resumes where the last
  match ended.
\<close>

function articles_loop ::
  "jschar option \<Rightarrow> jsstring \<Rightarrow> PricingItem_lib list \<Rightarrow> PricingItem_lib list" where
  "articles_loop p s items =
     (case search True articleRegex p s of
        None \<Rightarrow> items
      | Some (sk, p', s', articleMatch) \<Rightarrow>
          (case article_item articleMatch of
             None \<Rightarrow> articles_loop p' s' items
           | Some it \<Rightarrow> articles_loop p' s' (items @ [it])))"
  by pat_completeness auto
termination
  by (relation "measure (\<lambda>(p, s, items). length s)") (auto dest: article_match_consumes)

declare articles_loop.simps [simp del]

definition extractPricingFromHtml :: "jsstring \<Rightarrow> PricingItem_lib list" where
  "extractPricingFromHtml rawHtml = articles_loop None rawHtml []"

text \<open>
  An example page: \<open><article data-sku="a"><h2 class="product-name">n</h2><p
  class="product-price" data-price="1"></p></article>\<close>, any number of times.
\<close>

definition example_body :: jsstring where
  "example_body =
     js ''<h2 class='' @ [34] @ js ''product-name'' @ [34] @ js ''>n</h2>'' @
     js ''<p class='' @ [34] @ js ''product-price'' @ [34] @ js '' data-price='' @ [34] @
     js ''1'' @ [34] @ js ''></p>''"

definition example_article :: jsstring where
  "example_article =
     js ''<article data-sku='' @ [34] @ js ''a'' @ [34] @ js ''>'' @ example_body @ js ''</article>''"

definition example_caps :: caps where
  "example_caps = (\<lambda>n. None)(1 := Some (js ''a''), 2 := Some example_body)"

definition example_item :: PricingItem_lib where
  "example_item =
     \<lparr>sku = js ''a'', name = js ''n'', price = Num 1, currency_lib = js ''EUR'',
      availability = None\<rparr>"

lemma article_step:
  "search True articleRegex p (example_article @ rest) = Some ([], Some 62, rest, example_caps)"
  by (simp add: example_article_def example_body_def example_caps_def articleRegex_def js_def
      canon_def is_word_def is_digit_def)

lemma number_js_1: "Number_js (js ''1'') = Num 1"
proof -
  have "bitlen 0 = 0" by (subst bitlen.simps) simp
  then have b: "bitlen (Suc 0) = Suc 0" by (subst bitlen.simps) simp
  have "double_exp 1 = 0" by (simp add: double_exp_def b)
  then have "round_double 1 = 1"
    by (simp add: round_double_def round_half_even_def Let_def power_int_minus)
  then show ?thesis
    by (simp add: Number_js_def js_def is_digit_def digits_val_def to_number_def)
qed

lemma example_name: "str_match True nameRegex example_body = Some ((\<lambda>n. None)(1 := Some (js ''n'')))"
  by (simp add: str_match_def example_body_def nameRegex_def js_def canon_def)

lemma example_price:
  "str_match True priceDataRegex example_body = Some ((\<lambda>n. None)(1 := Some (js ''1'')))"
  by (simp add: str_match_def example_body_def priceDataRegex_def js_def canon_def)

lemma example_avail: "str_match True availabilityRegex example_body = None"
  by (simp add: str_match_def example_body_def availabilityRegex_def js_def canon_def)

lemma example_parse: "parsePriceFromString (js ''1'') = Some (Num 1)"
proof -
  have "replace_first 44 46 (filter (\<lambda>c. is_digit c \<or> c = 46 \<or> c = 44)
      (filter (\<lambda>c. \<not> is_space c) (js ''1''))) = js ''1''"
    by (simp add: js_def is_digit_def is_space_def)
  then show ?thesis by (simp add: parsePriceFromString_def number_js_1)
qed

lemma article_item_example: "article_item example_caps = Some example_item"
proof -
  have t: "trim (js ''n'') = js ''n''" by (simp add: trim_def js_def is_space_def)
  have n: "js ''1'' \<noteq> []" by (simp add: js_def)
  show ?thesis
    by (simp add: article_item_def example_caps_def example_name example_price example_avail
        example_parse example_item_def t n Let_def)
qed

lemma articles_replicate:
  "articles_loop p (concat (replicate n example_article)) items =
     items @ replicate n example_item"
proof (induction n arbitrary: p items)
  case 0
  have "search True articleRegex p [] = None"
    by (simp add: articleRegex_def js_def)
  then show ?case by (simp add: articles_loop.simps)
next
  case (Suc n)
  have "articles_loop p (example_article @ concat (replicate n example_article)) items
      = articles_loop (Some 62) (concat (replicate n example_article)) (items @ [example_item])"
    by (subst articles_loop.simps) (simp add: article_step article_item_example)
  then show ?case by (simp add: Suc.IH replicate_app_Cons_same)
qed

section \<open>Texts without markup\<close>

text \<open>
  The first character class a match of an expression has to start with, for the expressions
  that have one; a text none of whose characters is in that class holds no match, and
  \<open>replace\<close> returns it as it is.
\<close>

fun starts_with :: "rx \<Rightarrow> cls \<Rightarrow> bool" where
  "starts_with (C k) k' = (k = k')"
| "starts_with (Plus k) k' = (k = k')"
| "starts_with (Seq a b) k' = starts_with a k'"
| "starts_with (Group n r) k' = starts_with r k'"
| "starts_with r k' = False"

lemma run_starts_fail:
  "starts_with r k \<Longrightarrow> s = [] \<or> \<not> cls_mem ic k (hd s) \<Longrightarrow> run ic (R r # fs) p s c = None"
proof (induction r k arbitrary: fs rule: starts_with.induct)
  case (1 k k')
  then show ?case by (cases s) auto
next
  case (2 k k')
  then show ?case by (cases s) auto
next
  case (3 a b k')
  then show ?case by simp
next
  case (4 n r k')
  then show ?case by simp
qed simp_all

lemma search_unmatched:
  "starts_with r k \<Longrightarrow> \<forall>x \<in> set s. \<not> cls_mem ic k x \<Longrightarrow> search ic r p s = None"
proof (induction s arbitrary: p)
  case Nil
  then show ?case by (simp add: run_starts_fail)
next
  case (Cons x xs)
  then show ?case by (simp add: run_starts_fail)
qed

lemma replace_all_unmatched:
  "starts_with r k \<Longrightarrow> \<forall>x \<in> set s. \<not> cls_mem ic k x \<Longrightarrow> replace_all ic r rep p s = s"
  by (subst replace_all.simps) (simp add: search_unmatched)

lemma canon_lt: "canon 60 = canon x \<longleftrightarrow> x = 60"
proof -
  have "canon 60 = 60" by (simp add: canon_def)
  moreover have "canon x = 60 \<longleftrightarrow> x = 60"
    unfolding canon_def by (cases "97 \<le> x \<and> x \<le> 122") auto
  ultimately show ?thesis by auto
qed

lemma cleanHtmlToText_plain:
  assumes "\<forall>x \<in> set s. x \<noteq> 60 \<and> x \<noteq> 13 \<and> x \<noteq> 32 \<and> x \<noteq> 9"
    and "replace_all False (seqs [C (Lit 10), C (Lit 10), Plus (Lit 10)]) [10, 10] None s = s"
    and "trim s = s" and "length s \<le> 15000"
  shows "cleanHtmlToText s = s"
proof -
  have lt: "\<forall>x \<in> set s. \<not> cls_mem True (Lit 60) x" "\<forall>x \<in> set s. \<not> cls_mem False (Lit 60) x"
    using assms(1) by (simp_all add: canon_lt)
  have 1: "replace_all True scriptRegex (js '' '') None s = s"
    by (rule replace_all_unmatched [OF _ lt(1)]) (simp add: scriptRegex_def js_def)
  have 2: "replace_all True styleRegex (js '' '') None s = s"
    by (rule replace_all_unmatched [OF _ lt(1)]) (simp add: styleRegex_def js_def)
  have 3: "replace_all True blockCloseRegex [10] None s = s"
    by (rule replace_all_unmatched [OF _ lt(1)]) (simp add: blockCloseRegex_def js_def)
  have 4: "replace_all False tagRegex (js '' '') None s = s"
    by (rule replace_all_unmatched [OF _ lt(2)]) (simp add: tagRegex_def js_def)
  have 5: "replace_all False (C (Lit 13)) [] None s = s"
    by (rule replace_all_unmatched [of _ "Lit 13"]) (use assms(1) in auto)
  have 7: "replace_all False (Plus (AnyOf [32, 9])) (js '' '') None s = s"
    by (rule replace_all_unmatched [of _ "AnyOf [32, 9]"]) (use assms(1) in auto)
  have "cleanHtmlToText s =
      (let output = trim s in if 15000 < length output then slice0 15000 output else output)"
    by (simp only: cleanHtmlToText_def Let_def 1 2 3 4 5 assms(2) 7)
  then show ?thesis using assms(4) by (simp only: assms(3) Let_def) simp
qed

text \<open>No two line feeds follow each other.\<close>

fun no_blank_line :: "jsstring \<Rightarrow> bool" where
  "no_blank_line (x # y # ys) = (\<not> (x = 10 \<and> y = 10) \<and> no_blank_line (y # ys))"
| "no_blank_line s = True"

lemma search_newlines:
  "no_blank_line s \<Longrightarrow>
     search False (Seq (C (Lit 10)) (Seq (C (Lit 10)) (Plus (Lit 10)))) p s = None"
proof (induction s arbitrary: p rule: no_blank_line.induct)
  case (1 x y ys)
  from "1.prems" have nb: "\<not> (x = 10 \<and> y = 10)" and n: "no_blank_line (y # ys)" by simp_all
  have r: "run False [R (Seq (C (Lit 10)) (Seq (C (Lit 10)) (Plus (Lit 10))))] p (x # y # ys)
      (\<lambda>n. None) = None"
    using nb by auto
  note ih = "1.IH" [OF n, of "Some x"]
  show ?case by (subst search.simps) (simp only: r ih option.case)
qed simp_all

lemma newlines_unmatched:
  "no_blank_line s \<Longrightarrow>
     replace_all False (seqs [C (Lit 10), C (Lit 10), Plus (Lit 10)]) [10, 10] None s = s"
  unfolding seqs.simps
  by (subst replace_all.simps) (simp only: search_newlines option.case)

section \<open>scrapePage\<close>

text \<open>
  The network is the environment: \<open>fetch\<close> either rejects (a network error) or resolves to a
  response with a status and a body. \<open>response.ok\<close> holds for the statuses 200 to 299.
\<close>

datatype fetch_outcome = NetworkError | Response nat jsstring

datatype scrape_error = FetchRejected | FetchFailed nat

record ScrapeResult =
  sr_rawHtml :: jsstring
  sr_extractedText :: jsstring
  sr_pricingData :: "PricingItem_lib list"

definition response_ok :: "nat \<Rightarrow> bool" where
  "response_ok st \<longleftrightarrow> 200 \<le> st \<and> st \<le> 299"

definition scrapePage :: "(jsstring \<Rightarrow> fetch_outcome) \<Rightarrow> jsstring \<Rightarrow> scrape_error + ScrapeResult" where
  "scrapePage fetch url =
     (case fetch url of
        NetworkError \<Rightarrow> Inl FetchRejected
      | Response st body \<Rightarrow>
          if \<not> response_ok st then Inl (FetchFailed st)
          else Inr \<lparr>sr_rawHtml = body, sr_extractedText = cleanHtmlToText body,
                    sr_pricingData = extractPricingFromHtml body\<rparr>)"

section \<open>JSON.stringify of a pricing list\<close>

text \<open>
  \<open>Number::toString\<close> of a finite double is the runtime's shortest round-trip rendering; it is
  a parameter \<open>numstr\<close> of the model. Strings are quoted as \<open>QuoteJSONString\<close> does: the
  quotation mark (34) and the reverse solidus (92) get a reverse solidus in front, the control
  characters below U+0020 their short escape or the six-character escape with four hexadecimal
  digits, a surrogate that is not part of a pair the six-character escape, and every other code
  unit is copied.
\<close>

definition hex_digit :: "nat \<Rightarrow> jschar" where
  "hex_digit n = (if n < 10 then 48 + n else 87 + n)"

definition hex4 :: "nat \<Rightarrow> jsstring" where
  "hex4 c = [hex_digit (c div 4096 mod 16), hex_digit (c div 256 mod 16),
             hex_digit (c div 16 mod 16), hex_digit (c mod 16)]"

definition is_high_surrogate :: "jschar \<Rightarrow> bool" where
  "is_high_surrogate c \<longleftrightarrow> 55296 \<le> c \<and> c \<le> 56319"

definition is_low_surrogate :: "jschar \<Rightarrow> bool" where
  "is_low_surrogate c \<longleftrightarrow> 56320 \<le> c \<and> c \<le> 57343"

definition json_escape_char :: "jschar \<Rightarrow> jsstring" where
  "json_escape_char c =
     (if c = 8 then [92, 98] else if c = 9 then [92, 116] else if c = 10 then [92, 110]
      else if c = 12 then [92, 102] else if c = 13 then [92, 114]
      else if c = 34 then [92, 34] else if c = 92 then [92, 92]
      else if c < 32 \<or> is_high_surrogate c \<or> is_low_surrogate c then [92, 117] @ hex4 c
      else [c])"

fun json_escape :: "jsstring \<Rightarrow> jsstring" where
  "json_escape [] = []"
| "json_escape [c] = json_escape_char c"
| "json_escape (c # d # cs) =
     (if is_high_surrogate c \<and> is_low_surrogate d then c # d # json_escape cs
      else json_escape_char c @ json_escape (d # cs))"

definition QuoteJSONString :: "jsstring \<Rightarrow> jsstring" where
  "QuoteJSONString s = [34] @ json_escape s @ [34]"

definition json_string_or_null :: "jsstring option \<Rightarrow> jsstring" where
  "json_string_or_null v = (case v of None \<Rightarrow> js ''null'' | Some s \<Rightarrow> QuoteJSONString s)"

definition json_number_or_null :: "(rat \<Rightarrow> jsstring) \<Rightarrow> jsnumber option \<Rightarrow> jsstring" where
  "json_number_or_null numstr v =
     (case v of Some (Num d) \<Rightarrow> numstr d | _ \<Rightarrow> js ''null'')"

definition json_item :: "(rat \<Rightarrow> jsstring) \<Rightarrow> PricingItem \<Rightarrow> jsstring" where
  "json_item numstr it =
     js ''{'' @ QuoteJSONString (js ''label'') @ js '':'' @ json_string_or_null (label it) @
     js '','' @ QuoteJSONString (js ''amount'') @ js '':'' @ json_number_or_null numstr (amount it) @
     js '','' @ QuoteJSONString (js ''currency'') @ js '':'' @ json_string_or_null (currency it) @
     js '','' @ QuoteJSONString (js ''rawLine'') @ js '':'' @ QuoteJSONString (rawLine it) @
     js ''}''"

fun json_items :: "(rat \<Rightarrow> jsstring) \<Rightarrow> PricingItem list \<Rightarrow> jsstring" where
  "json_items numstr [] = []"
| "json_items numstr [it] = json_item numstr it"
| "json_items numstr (it # its) = json_item numstr it @ js '','' @ json_items numstr its"

text \<open>\<open>JSON.stringify\<close> of a stored pricing value: \<open>null\<close>, or an array of items.\<close>

definition JSON_stringify :: "(rat \<Rightarrow> jsstring) \<Rightarrow> PricingItem list option \<Rightarrow> jsstring" where
  "JSON_stringify numstr v =
     (case v of
        None \<Rightarrow> js ''null''
      | Some its \<Rightarrow> js ''['' @ json_items numstr its @ js '']'')"


section \<open>The store\<close>

text \<open>
  The tables of the Prisma schema the two routes use, as lists of rows in insertion order,
  and the next value of each \<open>SERIAL\<close> key. The store is modelled as always succeeding and as
  returning a JSON column the way it was written.
\<close>

datatype PageType = PRICING | LANDING | PRODUCT | BLOG | OTHER_PAGE

datatype ChangeType = TEXT | PRICE | SECTION_ADDED | SECTION_REMOVED | OTHER

record Project =
  project_id :: nat
  project_name :: jsstring
  project_description :: "jsstring option"

record Competitor =
  competitor_id :: nat
  competitor_projectId :: nat
  competitor_name :: jsstring

record MonitoredPage =
  page_id :: nat
  page_competitorId :: nat
  page_url :: jsstring
  page_pageType :: PageType

record Snapshot =
  snap_id :: nat
  snap_monitoredPageId :: nat
  capturedAt :: int
  rawHtml :: "jsstring option"
  extractedText :: "jsstring option"
  extractedPricing :: "PricingItem list option"

record Change =
  change_id :: nat
  change_monitoredPageId :: nat
  oldSnapshotId :: "nat option"
  newSnapshotId :: "nat option"
  changeType :: ChangeType
  field :: "jsstring option"
  oldValue :: "jsstring option"
  newValue :: "jsstring option"
  changeSummary :: "jsstring option"
  change_createdAt :: int

text \<open>A JSON value, as a \<open>Json\<close> column holds it.\<close>

datatype json =
    JNull
  | JBool bool
  | JNumber rat
  | JString jsstring
  | JArray "json list"
  | JObject "(jsstring \<times> json) list"

text \<open>\<open>None\<close> in an optional column is SQL \<open>NULL\<close>; a date is a time value in milliseconds.\<close>

record Report =
  report_id :: nat
  report_projectId :: nat
  periodStart :: "int option"
  periodEnd :: "int option"
  generatedAt :: int
  aiSummary :: "jsstring option"
  highlights :: "json option"
  pdfUrl :: "jsstring option"

record store =
  projects :: "Project list"
  competitors :: "Competitor list"
  monitoredPages :: "MonitoredPage list"
  snapshots :: "Snapshot list"
  changes :: "Change list"
  reports :: "Report list"
  next_snapshot_id :: nat
  next_change_id :: nat
  next_report_id :: nat

text \<open>\<open>prisma.monitoredPage.findUnique({ where: { id } })\<close>\<close>

definition findUnique_page :: "store \<Rightarrow> nat \<Rightarrow> MonitoredPage option" where
  "findUnique_page db i = find (\<lambda>pg. page_id pg = i) (monitoredPages db)"

text \<open>
  \<open>prisma.snapshot.findFirst({ where: { monitoredPageId }, orderBy: { capturedAt: 'desc' } })\<close>:
  a snapshot of the page with the latest capture time (the first such row, when several rows
  share it).
\<close>

fun latest :: "Snapshot list \<Rightarrow> Snapshot option" where
  "latest [] = None"
| "latest (s # ss) =
     (case latest ss of
        None \<Rightarrow> Some s
      | Some b \<Rightarrow> if capturedAt s < capturedAt b then Some b else Some s)"

definition findFirst_snapshot :: "store \<Rightarrow> nat \<Rightarrow> Snapshot option" where
  "findFirst_snapshot db i = latest (filter (\<lambda>s. snap_monitoredPageId s = i) (snapshots db))"

text \<open>\<open>prisma.snapshot.create\<close> and \<open>prisma.change.create\<close>: the row as stored, and the store after.\<close>

definition create_snapshot ::
  "store \<Rightarrow> nat \<Rightarrow> jsstring \<Rightarrow> jsstring \<Rightarrow> int \<Rightarrow> PricingItem list option \<Rightarrow> Snapshot \<times> store" where
  "create_snapshot db pageId html txt now pricing =
     (let s = \<lparr>snap_id = next_snapshot_id db, snap_monitoredPageId = pageId, capturedAt = now,
                rawHtml = Some html, extractedText = Some txt, extractedPricing = pricing\<rparr>
      in (s, db\<lparr>snapshots := snapshots db @ [s], next_snapshot_id := Suc (next_snapshot_id db)\<rparr>))"

definition create_change ::
  "store \<Rightarrow> nat \<Rightarrow> nat \<Rightarrow> nat \<Rightarrow> ChangeType \<Rightarrow> jsstring \<Rightarrow> jsstring \<Rightarrow> jsstring \<Rightarrow> jsstring \<Rightarrow> int
     \<Rightarrow> Change \<times> store" where
  "create_change db pageId oldId newId ty fld old new summary now =
     (let ch = \<lparr>change_id = next_change_id db, change_monitoredPageId = pageId,
                 oldSnapshotId = Some oldId, newSnapshotId = Some newId, changeType = ty,
                 field = Some fld, oldValue = Some old, newValue = Some new,
                 changeSummary = Some summary, change_createdAt = now\<rparr>
      in (ch, db\<lparr>changes := changes db @ [ch], next_change_id := Suc (next_change_id db)\<rparr>))"

section \<open>The scrape route\<close>

text \<open>
  \<open>parsePageId\<close>, on the value \<open>Number(raw)\<close> of the path parameter: a finite number above
  zero. The identifier is then used as a row key, for which the store takes whole numbers.
\<close>

definition parsePageId :: "jsnumber \<Rightarrow> rat option" where
  "parsePageId n = (case n of Num d \<Rightarrow> if d \<le> 0 then None else Some d | _ \<Rightarrow> None)"

text \<open>The decimal digits of a length, as a template literal prints it.\<close>

fun nat_str :: "nat \<Rightarrow> jsstring" where
  "nat_str n = (if n < 10 then [48 + n] else nat_str (n div 10) @ [48 + n mod 10])"

declare nat_str.simps [simp del]

definition MIN_LENGTH_DELTA :: nat where
  "MIN_LENGTH_DELTA = 20"

definition maxStoredLength :: nat where
  "maxStoredLength = 2000"

definition text_summary :: "nat \<Rightarrow> nat \<Rightarrow> jsstring" where
  "text_summary oldLen newLen =
     js ''Contenu texte modifi'' @ [233] @ js '' (longueur '' @ nat_str oldLen @ js '' '' @ [8594] @
     js '' '' @ nat_str newLen @ js ''). / Text content changed (length '' @ nat_str oldLen @
     js '' '' @ [8594] @ js '' '' @ nat_str newLen @ js '').''"

definition price_summary :: jsstring where
  "price_summary =
     js ''Tarifs ou plans modifi'' @ [233] @
     js ''s sur cette page. / Pricing or plans changed on this page.''"

datatype scrape_response =
    ErrorResponse nat jsstring
  | Created Snapshot "Change option" bool jsstring

definition msg_invalid_page :: jsstring where
  "msg_invalid_page = js ''Param'' @ [232] @ js ''tre pageId invalide. / Invalid pageId parameter.''"

definition msg_page_not_found :: jsstring where
  "msg_page_not_found =
     js ''Page surveill'' @ [233] @ js ''e introuvable. / Monitored page not found.''"

definition msg_change :: jsstring where
  "msg_change = js ''Changement d'' @ [233] @ js ''tect'' @ [233] @
     js '' sur la page. / Change detected on the page.''"

definition msg_no_change :: jsstring where
  "msg_no_change = js ''Snapshot cr'' @ [233, 233] @ js '', aucun changement majeur d'' @ [233] @
     js ''tect'' @ [233] @ js ''. / Snapshot created, no major change detected.''"

definition msg_scrape_error :: jsstring where
  "msg_scrape_error = js ''Erreur lors du snapshot de la page surveill'' @ [233] @
     js ''e. / Error running snapshot for monitored page.''"

text \<open>The environment of a request: the network, the clock and the runtime's number printing.\<close>

record env =
  fetch :: "jsstring \<Rightarrow> fetch_outcome"
  now :: int
  numstr :: "rat \<Rightarrow> jsstring"

text \<open>Truthiness of a pricing value: \<open>null\<close> is falsy, an array is truthy.\<close>

fun truthy_pricing :: "PricingItem list option \<Rightarrow> bool" where
  "truthy_pricing None = False"
| "truthy_pricing (Some its) = True"

text \<open>
  The comparison of the new snapshot with the previous one (the body of
  \<open>if (previousSnapshot)\<close>): the change returned to the client, \<open>hasChange\<close>, and the store.
\<close>

definition compare_snapshots ::
  "env \<Rightarrow> store \<Rightarrow> nat \<Rightarrow> Snapshot \<Rightarrow> Snapshot \<Rightarrow> jsstring \<Rightarrow> Change option \<times> bool \<times> store" where
  "compare_snapshots e db monitoredPageId previousSnapshot newSnapshot extracted =
     (let oldText = (case extractedText previousSnapshot of None \<Rightarrow> [] | Some t \<Rightarrow> t);
          newText = extracted;
          oldLen = length oldText;
          newLen = length newText;
          lengthDelta = nat \<bar>int newLen - int oldLen\<bar>;
          contentChanged = (oldText \<noteq> newText);
          (change, hasChange, db) =
            (if contentChanged \<and> (MIN_LENGTH_DELTA < lengthDelta \<or> newLen = 0)
             then (let (textChange, db') =
                         create_change db monitoredPageId (snap_id previousSnapshot)
                           (snap_id newSnapshot) TEXT (js ''content'')
                           (slice0 maxStoredLength oldText) (slice0 maxStoredLength newText)
                           (text_summary oldLen newLen) (now e)
                   in (Some textChange, True, db'))
             else (None, False, db));
          oldPricing = extractedPricing previousSnapshot;
          newPricing = extractedPricing newSnapshot;
          pricingChanged = (JSON_stringify (numstr e) oldPricing \<noteq> JSON_stringify (numstr e) newPricing)
      in if pricingChanged \<and> (truthy_pricing oldPricing \<or> truthy_pricing newPricing)
         then (let oldPricingStr = slice0 maxStoredLength (JSON_stringify (numstr e) oldPricing);
                   newPricingStr = slice0 maxStoredLength (JSON_stringify (numstr e) newPricing);
                   (priceChange, db') =
                      create_change db monitoredPageId (snap_id previousSnapshot)
                        (snap_id newSnapshot) PRICE (js ''pricing'') oldPricingStr newPricingStr
                        price_summary (now e)
               in (if change = None then Some priceChange else change, True, db'))
         else (change, hasChange, db))"

text \<open>
  \<open>POST /api/monitored-pages/[pageId]/scrape\<close>: the response and the store after the request.
  An exception thrown inside the \<open>try\<close> block (here: by \<open>scrapePage\<close>) ends in the status 500.
\<close>

definition POST_scrape :: "env \<Rightarrow> store \<Rightarrow> jsnumber \<Rightarrow> scrape_response \<times> store" where
  "POST_scrape e db rawPageId =
     (case parsePageId rawPageId of
        None \<Rightarrow> (ErrorResponse 400 msg_invalid_page, db)
      | Some idv \<Rightarrow>
          if of_int \<lfloor>idv\<rfloor> \<noteq> idv then (ErrorResponse 500 msg_scrape_error, db)
          else (let monitoredPageId = nat \<lfloor>idv\<rfloor> in
            case findUnique_page db monitoredPageId of
              None \<Rightarrow> (ErrorResponse 404 msg_page_not_found, db)
            | Some monitoredPage \<Rightarrow>
                (let previousSnapshot = findFirst_snapshot db monitoredPageId in
                 case scrapePage (fetch e) (page_url monitoredPage) of
                   Inl err \<Rightarrow> (ErrorResponse 500 msg_scrape_error, db)
                 | Inr res \<Rightarrow>
                     (let pricingData = extractPricingFromText (Some (sr_extractedText res));
                          (newSnapshot, db1) =
                             create_snapshot db monitoredPageId (sr_rawHtml res)
                               (sr_extractedText res) (now e)
                               (if 0 < length pricingData then Some pricingData else None);
                          (change, hasChange, db2) =
                             (case previousSnapshot of
                                None \<Rightarrow> (None, False, db1)
                              | Some prev \<Rightarrow>
                                  compare_snapshots e db1 monitoredPageId prev newSnapshot
                                    (sr_extractedText res))
                      in (Created newSnapshot change hasChange
                            (if hasChange then msg_change else msg_no_change), db2)))))"

section \<open>What a capture run creates\<close>

definition created_changes :: "store \<Rightarrow> store \<Rightarrow> Change list" where
  "created_changes db db' = drop (length (changes db)) (changes db')"

definition created_snapshots :: "store \<Rightarrow> store \<Rightarrow> Snapshot list" where
  "created_snapshots db db' = drop (length (snapshots db)) (snapshots db')"

text \<open>The new pricing value of a run, as stored with the snapshot.\<close>

definition new_pricing :: "jsstring \<Rightarrow> PricingItem list option" where
  "new_pricing txt =
     (let pricingData = extractPricingFromText (Some txt)
      in if 0 < length pricingData then Some pricingData else None)"

definition text_of :: "Snapshot \<Rightarrow> jsstring" where
  "text_of s = (case extractedText s of None \<Rightarrow> [] | Some t \<Rightarrow> t)"

lemma parsePageId_nat: "0 < pid \<Longrightarrow> parsePageId (Num (of_nat pid)) = Some (of_nat pid)"
  by (simp add: parsePageId_def)

lemma scrapePage_ok:
  "f url = Response st body \<Longrightarrow> response_ok st \<Longrightarrow>
     scrapePage f url = Inr \<lparr>sr_rawHtml = body, sr_extractedText = cleanHtmlToText body,
                              sr_pricingData = extractPricingFromHtml body\<rparr>"
  by (simp add: scrapePage_def)

lemma scrapePage_fails:
  "f url = NetworkError \<or> (\<exists>st body. f url = Response st body \<and> \<not> response_ok st) \<Longrightarrow>
     \<exists>err. scrapePage f url = Inl err"
  by (auto simp: scrapePage_def)

lemma compare_changes:
  "changes (snd (snd (compare_snapshots e db pid prev new txt))) =
     changes db
     @ (if text_of prev \<noteq> txt \<and> (20 < nat \<bar>int (length txt) - int (length (text_of prev))\<bar> \<or> txt = [])
        then [fst (create_change db pid (snap_id prev) (snap_id new) TEXT (js ''content'')
                 (slice0 maxStoredLength (text_of prev)) (slice0 maxStoredLength txt)
                 (text_summary (length (text_of prev)) (length txt)) (now e))]
        else [])
     @ (if JSON_stringify (numstr e) (extractedPricing prev) \<noteq> JSON_stringify (numstr e) (extractedPricing new)
           \<and> (truthy_pricing (extractedPricing prev) \<or> truthy_pricing (extractedPricing new))
        then [(fst (create_change db pid (snap_id prev) (snap_id new) PRICE (js ''pricing'')
                 (slice0 maxStoredLength (JSON_stringify (numstr e) (extractedPricing prev)))
                 (slice0 maxStoredLength (JSON_stringify (numstr e) (extractedPricing new)))
                 price_summary (now e)))
               \<lparr>change_id := next_change_id db
                  + (if text_of prev \<noteq> txt \<and> (20 < nat \<bar>int (length txt) - int (length (text_of prev))\<bar> \<or> txt = []) then 1 else 0)\<rparr>]
        else [])"
  by (simp add: compare_snapshots_def create_change_def Let_def text_of_def MIN_LENGTH_DELTA_def
      split: prod.splits)


definition text_change_due :: "jsstring \<Rightarrow> jsstring \<Rightarrow> bool" where
  "text_change_due oldText newText \<longleftrightarrow>
     oldText \<noteq> newText \<and>
     (20 < nat \<bar>int (length newText) - int (length oldText)\<bar> \<or> newText = [])"

definition price_change_due :: "(rat \<Rightarrow> jsstring) \<Rightarrow> PricingItem list option \<Rightarrow> PricingItem list option \<Rightarrow> bool" where
  "price_change_due f oldPricing newPricing \<longleftrightarrow>
     JSON_stringify f oldPricing \<noteq> JSON_stringify f newPricing \<and>
     (oldPricing \<noteq> None \<or> newPricing \<noteq> None)"

lemma truthy_pricing_iff: "truthy_pricing v \<longleftrightarrow> v \<noteq> None"
  by (cases v) auto

lemma post_success:
  assumes "0 < pid" and "findUnique_page db pid = Some pg"
    and "fetch e (page_url pg) = Response st body" and "response_ok st"
  shows "POST_scrape e db (Num (of_nat pid)) =
     (let txt = cleanHtmlToText body;
          (newSnapshot, db1) = create_snapshot db pid body txt (now e) (new_pricing txt);
          (change, hasChange, db2) =
             (case findFirst_snapshot db pid of
                None \<Rightarrow> (None, False, db1)
              | Some prev \<Rightarrow> compare_snapshots e db1 pid prev newSnapshot txt)
      in (Created newSnapshot change hasChange (if hasChange then msg_change else msg_no_change),
          db2))"
  using assms
  by (simp add: POST_scrape_def parsePageId_nat scrapePage_ok Let_def new_pricing_def
      split: option.splits prod.splits)

lemma compare_changes_ex:
  "\<exists>t p. changeType t = TEXT \<and> changeType p = PRICE
     \<and> oldSnapshotId t = Some (snap_id prev) \<and> newSnapshotId t = Some (snap_id new)
     \<and> oldSnapshotId p = Some (snap_id prev) \<and> newSnapshotId p = Some (snap_id new)
     \<and> changes (snd (snd (compare_snapshots e db pid prev new txt))) =
         changes db
         @ (if text_change_due (text_of prev) txt then [t] else [])
         @ (if price_change_due (numstr e) (extractedPricing prev) (extractedPricing new)
            then [p] else [])"
proof -
  let ?t = "fst (create_change db pid (snap_id prev) (snap_id new) TEXT (js ''content'')
                 (slice0 maxStoredLength (text_of prev)) (slice0 maxStoredLength txt)
                 (text_summary (length (text_of prev)) (length txt)) (now e))"
  let ?p = "(fst (create_change db pid (snap_id prev) (snap_id new) PRICE (js ''pricing'')
                 (slice0 maxStoredLength (JSON_stringify (numstr e) (extractedPricing prev)))
                 (slice0 maxStoredLength (JSON_stringify (numstr e) (extractedPricing new)))
                 price_summary (now e)))
               \<lparr>change_id := next_change_id db
                  + (if text_of prev \<noteq> txt \<and> (20 < nat \<bar>int (length txt) - int (length (text_of prev))\<bar> \<or> txt = []) then 1 else 0)\<rparr>"
  have "changeType ?t = TEXT \<and> changeType ?p = PRICE
     \<and> oldSnapshotId ?t = Some (snap_id prev) \<and> newSnapshotId ?t = Some (snap_id new)
     \<and> oldSnapshotId ?p = Some (snap_id prev) \<and> newSnapshotId ?p = Some (snap_id new)
     \<and> changes (snd (snd (compare_snapshots e db pid prev new txt))) =
         changes db
         @ (if text_change_due (text_of prev) txt then [?t] else [])
         @ (if price_change_due (numstr e) (extractedPricing prev) (extractedPricing new)
            then [?p] else [])"
    unfolding compare_changes
    by (simp add: text_change_due_def price_change_due_def truthy_pricing_iff create_change_def
        Let_def)
  then show ?thesis by blast
qed

lemma post_changes:
  assumes "0 < pid" and "findUnique_page db pid = Some pg"
    and "fetch e (page_url pg) = Response st body" and "response_ok st"
    and "findFirst_snapshot db pid = Some prev"
  shows "\<exists>t p. changeType t = TEXT \<and> changeType p = PRICE
     \<and> oldSnapshotId t \<noteq> None \<and> newSnapshotId t \<noteq> None
     \<and> oldSnapshotId p \<noteq> None \<and> newSnapshotId p \<noteq> None
     \<and> created_changes db (snd (POST_scrape e db (Num (of_nat pid)))) =
       (if text_change_due (text_of prev) (cleanHtmlToText body) then [t] else [])
       @ (if price_change_due (numstr e) (extractedPricing prev) (new_pricing (cleanHtmlToText body))
          then [p] else [])"
proof -
  let ?txt = "cleanHtmlToText body"
  obtain ns db1 where c: "create_snapshot db pid body ?txt (now e) (new_pricing ?txt) = (ns, db1)"
    by (cases "create_snapshot db pid body ?txt (now e) (new_pricing ?txt)")
  then have db1: "changes db1 = changes db" and ns: "extractedPricing ns = new_pricing ?txt"
    by (auto simp: create_snapshot_def Let_def)
  have s: "snd (POST_scrape e db (Num (of_nat pid))) = snd (snd (compare_snapshots e db1 pid prev ns ?txt))"
    unfolding post_success [OF assms(1-4)] by (simp add: Let_def c assms(5) split: prod.splits)
  from compare_changes_ex [of prev ns e db1 pid ?txt] obtain t p where
    "changeType t = TEXT" "changeType p = PRICE"
    "oldSnapshotId t = Some (snap_id prev)" "newSnapshotId t = Some (snap_id ns)"
    "oldSnapshotId p = Some (snap_id prev)" "newSnapshotId p = Some (snap_id ns)"
    "changes (snd (snd (compare_snapshots e db1 pid prev ns ?txt))) =
         changes db1
         @ (if text_change_due (text_of prev) ?txt then [t] else [])
         @ (if price_change_due (numstr e) (extractedPricing prev) (extractedPricing ns)
            then [p] else [])" by blast
  then have "changeType t = TEXT \<and> changeType p = PRICE
     \<and> oldSnapshotId t \<noteq> None \<and> newSnapshotId t \<noteq> None
     \<and> oldSnapshotId p \<noteq> None \<and> newSnapshotId p \<noteq> None
     \<and> created_changes db (snd (POST_scrape e db (Num (of_nat pid)))) =
       (if text_change_due (text_of prev) ?txt then [t] else [])
       @ (if price_change_due (numstr e) (extractedPricing prev) (new_pricing ?txt)
          then [p] else [])"
    unfolding created_changes_def s by (simp add: db1 ns)
  then show ?thesis by blast
qed

section \<open>An example store and request\<close>

definition example_store :: store where
  "example_store =
     \<lparr>projects = [\<lparr>project_id = 1, project_name = js ''p'', project_description = None\<rparr>],
      competitors = [\<lparr>competitor_id = 1, competitor_projectId = 1, competitor_name = js ''c''\<rparr>],
      monitoredPages = [\<lparr>page_id = 1, page_competitorId = 1, page_url = js ''u'',
                          page_pageType = PRICING\<rparr>],
      snapshots = [\<lparr>snap_id = 1, snap_monitoredPageId = 1, capturedAt = 0, rawHtml = None,
                    extractedText = Some (js ''0123456789012345678901234''),
                    extractedPricing = None\<rparr>],
      changes = [], reports = [], next_snapshot_id = 2, next_change_id = 1,
      next_report_id = 1\<rparr>"

definition example_env :: env where
  "example_env = \<lparr>fetch = (\<lambda>u. Response 200 (js ''49$'')), now = 5, numstr = (\<lambda>q. js ''5'')\<rparr>"

lemma clean_example: "cleanHtmlToText (js ''49$'') = js ''49$''"
  by (rule cleanHtmlToText_plain [OF _ newlines_unmatched])
    (simp_all add: js_def trim_def is_space_def)

section \<open>JSON.stringify tells pricing lists apart\<close>

text \<open>Reading a quoted string back: the text up to the closing quotation mark, and the rest.\<close>

definition unhex_digit :: "jschar \<Rightarrow> nat" where
  "unhex_digit x = (if x < 58 then x - 48 else x - 87)"

definition unescape :: "jschar \<Rightarrow> jschar" where
  "unescape x =
     (if x = 98 then 8 else if x = 116 then 9 else if x = 110 then 10 else if x = 102 then 12
      else if x = 114 then 13 else x)"

fun unhex4 :: "jsstring \<Rightarrow> nat" where
  "unhex4 [a, b, c, d] =
     4096 * unhex_digit a + 256 * unhex_digit b + 16 * unhex_digit c + unhex_digit d"
| "unhex4 s = 0"

function json_unescape :: "jsstring \<Rightarrow> jsstring \<times> jsstring" where
  "json_unescape [] = ([], [])"
| "json_unescape [x] = (if x = 34 then ([], []) else if x = 92 then ([], []) else ([x], []))"
| "json_unescape (x # y # ys) =
     (if x = 34 then ([], y # ys)
      else if x = 92 then
        (if y = 117 then
           (if length ys < 4 then ([], [])
            else (unhex4 (take 4 ys) # fst (json_unescape (drop 4 ys)),
                  snd (json_unescape (drop 4 ys))))
         else (unescape y # fst (json_unescape ys), snd (json_unescape ys)))
      else (x # fst (json_unescape (y # ys)), snd (json_unescape (y # ys))))"
  by pat_completeness auto
termination
  by (relation "measure length") auto

declare json_unescape.simps [simp del]

lemma digits16:
  fixes c :: nat
  assumes "c < 65536"
  shows "4096 * (c div 4096 mod 16) + 256 * (c div 256 mod 16) + 16 * (c div 16 mod 16) + c mod 16 = c"
proof -
  have a: "c div 4096 mod 16 = c div 4096" using assms by simp
  have b: "c div 256 = 16 * (c div 4096) + c div 256 mod 16"
    using div_mult_mod_eq [of "c div 256" 16] by (simp add: div_mult2_eq [symmetric] mult.commute)
  have d: "c div 16 = 16 * (c div 256) + c div 16 mod 16"
    using div_mult_mod_eq [of "c div 16" 16] by (simp add: div_mult2_eq [symmetric] mult.commute)
  have e: "c = 16 * (c div 16) + c mod 16" by simp
  show ?thesis using a b d e by linarith
qed


lemma unhex_hex: "n < 16 \<Longrightarrow> unhex_digit (hex_digit n) = n"
  by (auto simp: unhex_digit_def hex_digit_def)

lemma hex4_length: "length (hex4 c) = 4"
  by (simp add: hex4_def)

lemma unhex4_hex4: "c < 65536 \<Longrightarrow> unhex4 (hex4 c) = c"
proof -
  assume c: "c < 65536"
  have "unhex4 (hex4 c) =
     4096 * (c div 4096 mod 16) + 256 * (c div 256 mod 16) + 16 * (c div 16 mod 16) + c mod 16"
    unfolding hex4_def unhex4.simps by (simp only: unhex_hex mod_less_divisor zero_less_numeral)
  then show ?thesis using digits16 [OF c] by (simp only:)
qed

lemma unescape_cons:
  "x \<noteq> 34 \<Longrightarrow> x \<noteq> 92 \<Longrightarrow>
     json_unescape (x # z) = (x # fst (json_unescape z), snd (json_unescape z))"
  by (cases z) (auto simp: json_unescape.simps)

lemma unescape_short:
  "y \<noteq> 117 \<Longrightarrow>
     json_unescape (92 # y # z) = (unescape y # fst (json_unescape z), snd (json_unescape z))"
  by (simp add: json_unescape.simps)

lemma unescape_long:
  assumes "length h = 4"
  shows "json_unescape (92 # 117 # h @ z) = (unhex4 h # fst (json_unescape z), snd (json_unescape z))"
proof -
  have "\<not> length (h @ z) < 4" "take 4 (h @ z) = h" "drop 4 (h @ z) = z"
    using assms by simp_all
  then show ?thesis
    by (simp only: json_unescape.simps) simp
qed

lemma unescape_char:
  "json_unescape (json_escape_char c @ z) = (c # fst (json_unescape z), snd (json_unescape z))"
proof -
  consider (short) "c \<in> {8, 9, 10, 12, 13, 34, 92}"
    | (long) "c \<notin> {8, 9, 10, 12, 13, 34, 92}" "c < 32 \<or> is_high_surrogate c \<or> is_low_surrogate c"
    | (plain) "c \<notin> {8, 9, 10, 12, 13, 34, 92}" "\<not> (c < 32 \<or> is_high_surrogate c \<or> is_low_surrogate c)"
    by blast
  then show ?thesis
  proof cases
    case short
    then show ?thesis
      by (auto simp: json_escape_char_def unescape_short unescape_def)
  next
    case long
    then have c: "c < 65536" by (auto simp: is_high_surrogate_def is_low_surrogate_def)
    from long have "json_escape_char c = 92 # 117 # hex4 c"
      by (auto simp: json_escape_char_def)
    then show ?thesis
      by (simp only: append_Cons unescape_long [OF hex4_length] unhex4_hex4 [OF c])
  next
    case plain
    then have "json_escape_char c = [c]" "c \<noteq> 34" "c \<noteq> 92"
      by (auto simp: json_escape_char_def)
    then show ?thesis by (simp add: unescape_cons)
  qed
qed

lemma unescape_end: "json_unescape (34 # r) = ([], r)"
  by (cases r) (auto simp: json_unescape.simps)

lemma unescape_escape: "json_unescape (json_escape s @ 34 # r) = (s, r)"
proof (induction s rule: json_escape.induct)
  case 1
  show ?case by (simp only: json_escape.simps append_Nil unescape_end)
next
  case (2 c)
  show ?case by (simp only: json_escape.simps unescape_char unescape_end fst_conv snd_conv)
next
  case (3 c d cs)
  show ?case
  proof (cases "is_high_surrogate c \<and> is_low_surrogate d")
    case True
    then have ne: "c \<noteq> 34" "c \<noteq> 92" "d \<noteq> 34" "d \<noteq> 92"
      by (auto simp: is_high_surrogate_def is_low_surrogate_def)
    have e: "json_escape (c # d # cs) = c # d # json_escape cs"
      using True by simp
    show ?thesis
      unfolding e append_Cons unescape_cons [OF ne(1,2)] unescape_cons [OF ne(3,4)]
        "3.IH"(1) [OF True] by simp
  next
    case False
    then have e: "json_escape (c # d # cs) = json_escape_char c @ json_escape (d # cs)"
      by auto
    show ?thesis
      unfolding e append_assoc unescape_char "3.IH"(2) [OF False] by simp
  qed
qed

lemma escape_inj:
  "json_escape s @ 34 # r = json_escape t @ 34 # r' \<Longrightarrow> s = t \<and> r = r'"
proof -
  assume "json_escape s @ 34 # r = json_escape t @ 34 # r'"
  then have "json_unescape (json_escape s @ 34 # r) = json_unescape (json_escape t @ 34 # r')"
    by simp
  then show ?thesis unfolding unescape_escape by simp
qed

lemma quote_inj:
  assumes "QuoteJSONString s @ r = QuoteJSONString t @ r'"
  shows "s = t \<and> r = r'"
proof -
  from assms have "json_escape s @ 34 # r = json_escape t @ 34 # r'"
    by (simp add: QuoteJSONString_def)
  then show ?thesis by (rule escape_inj)
qed


lemma str_or_null_inj:
  assumes "json_string_or_null a @ r = json_string_or_null b @ r'"
  shows "a = b \<and> r = r'"
proof (cases a)
  case None
  show ?thesis
  proof (cases b)
    case None
    with \<open>a = None\<close> assms show ?thesis by (simp add: json_string_or_null_def)
  next
    case (Some t)
    with \<open>a = None\<close> assms show ?thesis
      by (simp add: json_string_or_null_def QuoteJSONString_def js_def)
  qed
next
  case (Some s)
  show ?thesis
  proof (cases b)
    case None
    with \<open>a = Some s\<close> assms show ?thesis
      by (simp add: json_string_or_null_def QuoteJSONString_def js_def)
  next
    case (Some t)
    with \<open>a = Some s\<close> assms have "QuoteJSONString s @ r = QuoteJSONString t @ r'"
      by (simp add: json_string_or_null_def)
    from quote_inj [OF this] Some \<open>a = Some s\<close> show ?thesis by simp
  qed
qed

lemma split_at_first:
  "x \<notin> set a \<Longrightarrow> x \<notin> set b \<Longrightarrow> a @ x # r = b @ x # r' \<Longrightarrow> a = b \<and> r = r'"
proof (induction a arbitrary: b)
  case Nil
  then show ?case by (cases b) auto
next
  case (Cons y a)
  then show ?case by (cases b) auto
qed

lemma item_inj:
  assumes a: "amount a = Some (Num d)" and b: "amount b = Some (Num d')"
    and inj: "f d = f d' \<Longrightarrow> d = d'"
    and c: "44 \<notin> set (f d)" "44 \<notin> set (f d')"
    and eq: "json_item f a @ r = json_item f b @ r'"
  shows "a = b \<and> r = r'"
proof -
  let ?q = "QuoteJSONString"
  let ?r4 = "\<lambda>it r. ?q (rawLine it) @ js ''}'' @ r"
  let ?r3 = "\<lambda>it r. json_string_or_null (currency it) @ js '','' @ ?q (js ''rawLine'') @ js '':'' @ ?r4 it r"
  let ?r2 = "\<lambda>it r. ?q (js ''currency'') @ js '':'' @ ?r3 it r"
  let ?r1 = "\<lambda>it r. js '','' @ ?q (js ''amount'') @ js '':'' @ json_number_or_null f (amount it) @ js '','' @ ?r2 it r"
  from eq have "json_string_or_null (label a) @ ?r1 a r = json_string_or_null (label b) @ ?r1 b r'"
    by (simp add: json_item_def)
  from str_or_null_inj [OF this] have l: "label a = label b" and 1: "?r1 a r = ?r1 b r'"
    by simp_all
  from 1 have "f d @ 44 # ?r2 a r = f d' @ 44 # ?r2 b r'"
    by (simp add: a b json_number_or_null_def) (simp add: js_def)
  then have "f d = f d' \<and> ?r2 a r = ?r2 b r'"
    using split_at_first [OF c] by blast
  then have n: "f d = f d'" and 2: "?r2 a r = ?r2 b r'"
    by blast+
  from 2 have "?r3 a r = ?r3 b r'" by simp
  from str_or_null_inj [OF this] have cu: "currency a = currency b"
    and 3: "js '','' @ ?q (js ''rawLine'') @ js '':'' @ ?r4 a r = js '','' @ ?q (js ''rawLine'') @ js '':'' @ ?r4 b r'"
    by simp_all
  from 3 have "?r4 a r = ?r4 b r'" by simp
  from quote_inj [OF this] have ra: "rawLine a = rawLine b" and "r = r'" by simp_all
  moreover from inj [OF n] a b have "amount a = amount b" by simp
  ultimately show ?thesis using l cu by simp
qed


lemma json_items_Cons:
  "json_items f (it # its) = json_item f it @ (if its = [] then [] else 44 # json_items f its)"
  by (cases its) (simp_all add: js_def)

lemma json_item_head: "\<exists>z. json_item f it = 123 # z"
  by (simp add: json_item_def js_def)

lemma items_inj:
  assumes "\<And>x. x \<in> set xs \<union> set ys \<Longrightarrow> \<exists>d. amount x = Some (Num d) \<and> 44 \<notin> set (f d)"
    and "\<And>x y d d'. x \<in> set xs \<union> set ys \<Longrightarrow> y \<in> set xs \<union> set ys \<Longrightarrow>
           amount x = Some (Num d) \<Longrightarrow> amount y = Some (Num d') \<Longrightarrow> f d = f d' \<Longrightarrow> d = d'"
    and "json_items f xs @ 93 # r = json_items f ys @ 93 # r'"
  shows "xs = ys"
  using assms
proof (induction xs arbitrary: ys)
  case Nil
  show ?case
  proof (cases ys)
    case Nil
    then show ?thesis by simp
  next
    case (Cons y ys')
    from json_item_head [of f y] obtain z where "json_item f y = 123 # z" by blast
    with Nil.prems(3) Cons show ?thesis by (simp add: json_items_Cons)
  qed
next
  case (Cons x xs)
  show ?case
  proof (cases ys)
    case Nil
    from json_item_head [of f x] obtain z where "json_item f x = 123 # z" by blast
    with Cons.prems(3) Nil show ?thesis by (simp add: json_items_Cons)
  next
    case (Cons y ys')
    let ?rx = "(if xs = [] then [] else 44 # json_items f xs) @ 93 # r"
    let ?ry = "(if ys' = [] then [] else 44 # json_items f ys') @ 93 # r'"
    from Cons.prems(1) [of x] obtain d where d: "amount x = Some (Num d)" "44 \<notin> set (f d)"
      by auto
    from Cons.prems(1) [of y] Cons obtain d' where d': "amount y = Some (Num d')" "44 \<notin> set (f d')"
      by auto
    have i: "f d = f d' \<Longrightarrow> d = d'"
      using Cons.prems(2) [of x y d d'] d(1) d'(1) Cons by simp
    from Cons.prems(3) Cons have "json_item f x @ ?rx = json_item f y @ ?ry"
      by (simp add: json_items_Cons)
    from item_inj [OF d(1) d'(1) i d(2) d'(2) this] have xy: "x = y" and r: "?rx = ?ry"
      by simp_all
    have "xs = ys'"
    proof (cases "xs = []")
      case True
      with r show ?thesis by (cases "ys' = []") auto
    next
      case False
      with r have ne: "ys' \<noteq> []" by (cases "ys' = []") auto
      with r False have "json_items f xs @ 93 # r = json_items f ys' @ 93 # r'" by simp
      moreover have "\<And>x. x \<in> set xs \<union> set ys' \<Longrightarrow> \<exists>d. amount x = Some (Num d) \<and> 44 \<notin> set (f d)"
        using Cons.prems(1) Cons by auto
      moreover have "\<And>x y d d'. x \<in> set xs \<union> set ys' \<Longrightarrow> y \<in> set xs \<union> set ys' \<Longrightarrow>
           amount x = Some (Num d) \<Longrightarrow> amount y = Some (Num d') \<Longrightarrow> f d = f d' \<Longrightarrow> d = d'"
        using Cons.prems(2) Cons by auto
      ultimately show ?thesis using Cons.IH [of ys'] by blast
    qed
    with xy Cons show ?thesis by simp
  qed
qed

section \<open>Dates\<close>


















section \<open>The reports route\<close>
























section \<open>Window lemmas\<close>














section \<open>Report lemmas\<close>














section \<open>Lines of a text\<close>

text \<open>
  The words of the statements about lines, written without the functions of the program:
  white space, and a text \<open>r\<close> that is a line of \<open>t\<close> with the white space at its ends removed:
  \<open>r\<close> stands in \<open>t\<close> between two line feeds (or the ends of \<open>t\<close>), with nothing but white space
  other than line feeds around it, holds no line feed, is not empty and neither starts nor ends
  with white space.
\<close>

definition white_space :: "jschar \<Rightarrow> bool" where
  "white_space c \<longleftrightarrow>
     c \<in> {9, 10, 11, 12, 13, 32, 160, 5760, 8232, 8233, 8239, 8287, 12288, 65279}
     \<or> (8192 \<le> c \<and> c \<le> 8202)"

definition trimmed_line_of :: "jsstring \<Rightarrow> jsstring \<Rightarrow> bool" where
  "trimmed_line_of r t \<longleftrightarrow>
     (\<exists>a u v b. t = a @ u @ r @ v @ b
        \<and> (a = [] \<or> last a = 10) \<and> (b = [] \<or> hd b = 10)
        \<and> (\<forall>c \<in> set (u @ v). white_space c \<and> c \<noteq> 10)
        \<and> 10 \<notin> set r \<and> r \<noteq> [] \<and> \<not> white_space (hd r) \<and> \<not> white_space (last r))"


lemma is_space_white: "is_space c \<longleftrightarrow> white_space c"
  unfolding is_space_def white_space_def by auto

lemma split_lines_head:
  "\<exists>l0 ls b. split_lines t = l0 # ls \<and> t = l0 @ b \<and> 10 \<notin> set l0
      \<and> ((b = [] \<and> ls = []) \<or> (\<exists>b'. (b = 10 # b' \<or> b = 13 # 10 # b') \<and> ls = split_lines b'))"
proof (induction t rule: split_lines.induct)
  case 1
  show ?case by simp
next
  case (2 c cs)
  show ?case
  proof (cases "c = 10")
    case True
    then show ?thesis by simp
  next
    case False
    show ?thesis
    proof (cases "c = 13 \<and> cs \<noteq> [] \<and> hd cs = 10")
      case True
      then obtain cs' where "cs = 10 # cs'" by (cases cs) auto
      with True False show ?thesis by simp
    next
      case nb: False
      from "2.IH"(3) [OF False nb] obtain l0 ls b where h: "split_lines cs = l0 # ls"
        "cs = l0 @ b" "10 \<notin> set l0"
        "(b = [] \<and> ls = []) \<or> (\<exists>b'. (b = 10 # b' \<or> b = 13 # 10 # b') \<and> ls = split_lines b')"
        by blast
      have "split_lines (c # cs) = (c # l0) # ls" using False nb h(1) by simp
      moreover have "c # cs = (c # l0) @ b" using h(2) by simp
      moreover have "10 \<notin> set (c # l0)" using False h(3) by simp
      ultimately show ?thesis using h(4) by blast
    qed
  qed
qed

lemma split_lines_piece:
  "l \<in> set (split_lines t) \<Longrightarrow>
     \<exists>a b. t = a @ l @ b \<and> (a = [] \<or> last a = 10)
           \<and> (b = [] \<or> hd b = 10 \<or> (\<exists>b'. b = 13 # 10 # b')) \<and> 10 \<notin> set l"
proof (induction "length t" arbitrary: t rule: less_induct)
  case less
  from split_lines_head [of t] obtain l0 ls b where h: "split_lines t = l0 # ls"
    "t = l0 @ b" "10 \<notin> set l0"
    "(b = [] \<and> ls = []) \<or> (\<exists>b'. (b = 10 # b' \<or> b = 13 # 10 # b') \<and> ls = split_lines b')"
    by blast
  from less.prems h(1) have "l = l0 \<or> l \<in> set ls" by auto
  then show ?case
  proof
    assume "l = l0"
    with h(2,3,4) show ?thesis by (intro exI [of _ "[]"] exI [of _ b]) auto
  next
    assume m: "l \<in> set ls"
    with h(4) obtain b' where b': "b = 10 # b' \<or> b = 13 # 10 # b'" "ls = split_lines b'"
      by auto
    have "length b' < length t" using h(2) b'(1) by auto
    from less.hyps [OF this] m b'(2) obtain a2 b2 where ab: "b' = a2 @ l @ b2"
      "a2 = [] \<or> last a2 = 10" "b2 = [] \<or> hd b2 = 10 \<or> (\<exists>b'. b2 = 13 # 10 # b')" "10 \<notin> set l"
      by blast
    from b'(1) obtain sep where sep: "b = sep @ b'" "last sep = 10" "sep \<noteq> []" by auto
    have "t = (l0 @ sep @ a2) @ l @ b2" using h(2) sep(1) ab(1) by simp
    moreover have "last (l0 @ sep @ a2) = 10" using sep(2,3) ab(2) by (cases "a2 = []") auto
    ultimately show ?thesis using ab(3,4) by blast
  qed
qed

lemma trim_decomp:
  assumes "trim l \<noteq> []"
  shows "\<exists>u v. l = u @ trim l @ v \<and> list_all is_space u \<and> list_all is_space v"
proof -
  let ?u = "takeWhile is_space l"
  let ?ys = "dropWhile is_space l"
  let ?v = "rev (takeWhile is_space (rev ?ys))"
  have "rev ?ys = takeWhile is_space (rev ?ys) @ dropWhile is_space (rev ?ys)" by simp
  then have "?ys = rev (dropWhile is_space (rev ?ys)) @ ?v"
    by (metis rev_append rev_rev_ident)
  then have "?ys = trim l @ ?v" by (simp add: trim_def)
  moreover have "l = ?u @ ?ys" by simp
  ultimately have "l = ?u @ trim l @ ?v" by simp
  moreover have "list_all is_space ?u" by (simp add: list_all_iff) (meson set_takeWhileD)
  moreover have "list_all is_space ?v" by (simp add: list_all_iff) (meson set_takeWhileD)
  ultimately show ?thesis by blast
qed

lemma trimmed_line:
  assumes "l \<in> set (split_lines t)" and "trim l \<noteq> []"
  shows "trimmed_line_of (trim l) t"
proof -
  from split_lines_piece [OF assms(1)] obtain a b where ab: "t = a @ l @ b"
    "a = [] \<or> last a = 10" "b = [] \<or> hd b = 10 \<or> (\<exists>b'. b = 13 # 10 # b')" "10 \<notin> set l"
    by blast
  from trim_decomp [OF assms(2)] obtain u v where uv: "l = u @ trim l @ v"
    "list_all is_space u" "list_all is_space v" by blast
  have n: "10 \<notin> set u" "10 \<notin> set (trim l)" "10 \<notin> set v"
    using ab(4) uv(1) by (metis Un_iff set_append)+
  have e: "\<not> white_space (hd (trim l))" "\<not> white_space (last (trim l))"
    using trim_edges [OF assms(2)] by (simp_all add: is_space_white)
  show ?thesis
  proof (cases "\<exists>b'. b = 13 # 10 # b'")
    case True
    then obtain b' where b': "b = 13 # 10 # b'" by blast
    have "t = a @ u @ trim l @ (v @ [13]) @ (10 # b')" using ab(1) uv(1) b' by simp
    moreover have "\<forall>c \<in> set (u @ v @ [13]). white_space c \<and> c \<noteq> 10"
      using uv(2,3) n by (auto simp: list_all_iff is_space_white white_space_def)
    ultimately show ?thesis
      unfolding trimmed_line_of_def using ab(2) n(2) assms(2) e
      by (intro exI [of _ a] exI [of _ u] exI [of _ "v @ [13]"] exI [of _ "10 # b'"]) simp
  next
    case False
    have "t = a @ u @ trim l @ v @ b" using ab(1) uv(1) by simp
    moreover have "\<forall>c \<in> set (u @ v). white_space c \<and> c \<noteq> 10"
      using uv(2,3) n by (auto simp: list_all_iff is_space_white)
    ultimately show ?thesis
      unfolding trimmed_line_of_def using ab(2,3) False n(2) assms(2) e
      by (intro exI [of _ a] exI [of _ u] exI [of _ v] exI [of _ b]) simp
  qed
qed


definition example_long_line :: jsstring where
  "example_long_line =
     js ''49$ per month, billed yearly; cancel at any time, taxes not included, offer for new customers only, see the terms of sale for details''"

definition example_lines_text :: jsstring where
  "example_lines_text = js ''Plans'' @ [13, 10] @ js ''  '' @ example_long_line @ js '' '' @ [10] @ js ''Contact''"

definition example_long_item :: PricingItem where
  "example_long_item =
     \<lparr>label = Some (js ''49$ per month, billed yearly; cancel at any time, taxes not included, offer for new customers only, see the terms of sal''),
      amount = Some (Num 49), currency = Some (js ''USD''), rawLine = example_long_line\<rparr>"

lemma example_long_length: "length example_long_line = 133"
  by (simp add: example_long_line_def js_def)

lemma example_lines_split:
  "text_lines example_lines_text = [js ''Plans'', example_long_line, js ''Contact'']"
  by (simp add: text_lines_def example_lines_text_def example_long_line_def trim_def js_def
      is_space_def)

lemma line_item_long: "line_item example_long_line = Some example_long_item"
  using number_js_49
  by (simp add: price_eval example_long_line_def example_long_item_def)

lemma line_item_plans: "line_item (js ''Plans'') = None"
  by (simp add: price_eval)

lemma line_item_contact: "line_item (js ''Contact'') = None"
  by (simp add: price_eval)

lemma example_lines_items: "extractPricingFromText (Some example_lines_text) = [example_long_item]"
proof -
  have "example_lines_text \<noteq> []" by (simp add: example_lines_text_def js_def)
  then show ?thesis
    by (simp add: extract_eq example_lines_split List.map_filter_def line_item_long
        line_item_plans line_item_contact MAX_ITEMS_def)
qed

section \<open>Price forms\<close>























































section \<open>Capture runs: lemmas and examples\<close>

text \<open>
  The amounts of a list of items, and what the statements ask of the printing of numbers: on
  the amounts that occur, no comma and different texts for different amounts.
  \<open>printed_apart\<close> asks in addition that every amount is a finite number.
\<close>

definition amounts_of :: "PricingItem list \<Rightarrow> rat list" where
  "amounts_of its = concat (map (\<lambda>x. case amount x of Some (Num d) \<Rightarrow> [d] | _ \<Rightarrow> []) its)"

definition printed_apart :: "(rat \<Rightarrow> jsstring) \<Rightarrow> PricingItem list \<Rightarrow> bool" where
  "printed_apart f its \<longleftrightarrow>
     (\<forall>x \<in> set its. case amount x of Some (Num d) \<Rightarrow> 44 \<notin> set (f d) | _ \<Rightarrow> False) \<and>
     (\<forall>d \<in> set (amounts_of its). \<forall>d' \<in> set (amounts_of its). f d = f d' \<longrightarrow> d = d')"

lemma amounts_of_mem: "x \<in> set its \<Longrightarrow> amount x = Some (Num d) \<Longrightarrow> d \<in> set (amounts_of its)"
  by (auto simp: amounts_of_def intro!: bexI [of _ x])

lemma stringify_inj:
  assumes "printed_apart f (xs @ ys)"
    and "JSON_stringify f (Some xs) = JSON_stringify f (Some ys)"
  shows "xs = ys"
proof (rule items_inj [of xs ys f "[]" "[]"])
  fix x assume "x \<in> set xs \<union> set ys"
  with assms(1) have c: "case amount x of Some (Num d) \<Rightarrow> 44 \<notin> set (f d) | _ \<Rightarrow> False"
    unfolding printed_apart_def by auto
  show "\<exists>d. amount x = Some (Num d) \<and> 44 \<notin> set (f d)"
  proof (cases "amount x")
    case None
    with c show ?thesis by simp
  next
    case (Some v)
    with c show ?thesis by (cases v) simp_all
  qed
next
  fix x y d d'
  assume "x \<in> set xs \<union> set ys" "y \<in> set xs \<union> set ys" "amount x = Some (Num d)"
    "amount y = Some (Num d')" "f d = f d'"
  then have "d \<in> set (amounts_of (xs @ ys))" "d' \<in> set (amounts_of (xs @ ys))"
    using amounts_of_mem [of x "xs @ ys" d] amounts_of_mem [of y "xs @ ys" d'] by auto
  with assms(1) \<open>f d = f d'\<close> show "d = d'"
    by (simp add: printed_apart_def)
next
  from assms(2) show "json_items f xs @ 93 # [] = json_items f ys @ 93 # []"
    by (simp add: JSON_stringify_def js_def)
qed

definition prints_apart :: "(rat \<Rightarrow> jsstring) \<Rightarrow> PricingItem list \<Rightarrow> bool" where
  "prints_apart f its \<longleftrightarrow>
     (\<forall>d \<in> set (amounts_of its). 44 \<notin> set (f d)) \<and>
     (\<forall>d \<in> set (amounts_of its). \<forall>d' \<in> set (amounts_of its). f d = f d' \<longrightarrow> d = d')"

lemma new_pricing_finite:
  assumes "new_pricing txt = Some ys" and "y \<in> set ys"
  shows "\<exists>d. amount y = Some (Num d)"
proof -
  from assms have "y \<in> set (extractPricingFromText (Some txt))"
    by (auto simp: new_pricing_def Let_def split: if_splits)
  from extract_item [OF this] obtain l where "line_item (trim l) = Some y" by blast
  from line_item_Some [OF this] show ?thesis by blast
qed

lemma printed_apart_new:
  assumes "new_pricing txt = Some ys" and "set xs = set ys" and "prints_apart f (xs @ ys)"
  shows "printed_apart f (xs @ ys)"
proof -
  have "case amount x of Some (Num d) \<Rightarrow> 44 \<notin> set (f d) | _ \<Rightarrow> False" if "x \<in> set (xs @ ys)" for x
  proof -
    from that assms(2) have "x \<in> set ys" by auto
    from new_pricing_finite [OF assms(1) this] obtain d where d: "amount x = Some (Num d)" by blast
    with amounts_of_mem [OF that d] assms(3) show ?thesis by (simp add: prints_apart_def)
  qed
  with assms(3) show ?thesis unfolding printed_apart_def prints_apart_def by blast
qed

lemma price_change_order:
  assumes "printed_apart f (xs @ ys)" and "xs \<noteq> ys"
  shows "price_change_due f (Some xs) (Some ys)"
  using stringify_inj [OF assms(1)] assms(2) by (auto simp: price_change_due_def)

lemma latest_Some:
  "latest ss = Some b \<Longrightarrow> b \<in> set ss \<and> (\<forall>s \<in> set ss. capturedAt s \<le> capturedAt b)"
proof (induction ss arbitrary: b)
  case Nil
  then show ?case by simp
next
  case (Cons s ss)
  show ?case
  proof (cases "latest ss")
    case None
    then have "ss = []" by (cases ss) (auto split: option.splits if_splits)
    with Cons.prems show ?thesis by simp
  next
    case (Some b')
    from Cons.IH [OF Some] have b': "b' \<in> set ss" "\<forall>s \<in> set ss. capturedAt s \<le> capturedAt b'"
      by simp_all
    show ?thesis
    proof (cases "capturedAt s < capturedAt b'")
      case True
      with Cons.prems Some have "b = b'" by simp
      with b' True show ?thesis by auto
    next
      case False
      with Cons.prems Some have "b = s" by simp
      with b' False show ?thesis by auto
    qed
  qed
qed

lemma latest_None: "latest ss = None \<longleftrightarrow> ss = []"
  by (cases ss) (auto split: option.splits if_splits)

lemma findFirst_latest:
  assumes "findFirst_snapshot db pid = Some prev"
  shows "prev \<in> set (snapshots db) \<and> snap_monitoredPageId prev = pid
       \<and> (\<forall>s \<in> set (snapshots db). snap_monitoredPageId s = pid \<longrightarrow> capturedAt s \<le> capturedAt prev)"
  using latest_Some [OF assms [unfolded findFirst_snapshot_def]] by auto

lemma findFirst_None:
  "findFirst_snapshot db pid = None \<longleftrightarrow> (\<forall>s \<in> set (snapshots db). snap_monitoredPageId s \<noteq> pid)"
  by (auto simp: findFirst_snapshot_def latest_None filter_empty_conv)

lemma response_ok_iff: "response_ok st \<longleftrightarrow> 200 \<le> st \<and> st < 300"
  by (auto simp: response_ok_def)

lemma text_changes:
  assumes "0 < pid" and "findUnique_page db pid = Some pg"
    and "fetch e (page_url pg) = Response st body" and "200 \<le> st" and "st < 300"
    and "findFirst_snapshot db pid = Some prev"
  shows "(\<exists>ch \<in> set (created_changes db (snd (POST_scrape e db (Num (of_nat pid))))). changeType ch = TEXT)
          \<longleftrightarrow> text_change_due (text_of prev) (cleanHtmlToText body)"
    and "(\<exists>ch \<in> set (created_changes db (snd (POST_scrape e db (Num (of_nat pid))))). changeType ch = PRICE)
          \<longleftrightarrow> price_change_due (numstr e) (extractedPricing prev) (new_pricing (cleanHtmlToText body))"
    and "\<forall>ch \<in> set (created_changes db (snd (POST_scrape e db (Num (of_nat pid))))).
            oldSnapshotId ch \<noteq> None \<and> newSnapshotId ch \<noteq> None"
proof -
  have ok: "response_ok st" using assms(4,5) by (simp add: response_ok_iff)
  from post_changes [OF assms(1-3) ok assms(6)] obtain t p where tp: "changeType t = TEXT"
    "changeType p = PRICE" "oldSnapshotId t \<noteq> None" "newSnapshotId t \<noteq> None"
    "oldSnapshotId p \<noteq> None" "newSnapshotId p \<noteq> None"
    "created_changes db (snd (POST_scrape e db (Num (of_nat pid)))) =
       (if text_change_due (text_of prev) (cleanHtmlToText body) then [t] else [])
       @ (if price_change_due (numstr e) (extractedPricing prev) (new_pricing (cleanHtmlToText body))
          then [p] else [])" by blast
  show "(\<exists>ch \<in> set (created_changes db (snd (POST_scrape e db (Num (of_nat pid))))). changeType ch = TEXT)
          \<longleftrightarrow> text_change_due (text_of prev) (cleanHtmlToText body)"
    unfolding tp(7) using tp(1,2) by auto
  show "(\<exists>ch \<in> set (created_changes db (snd (POST_scrape e db (Num (of_nat pid))))). changeType ch = PRICE)
          \<longleftrightarrow> price_change_due (numstr e) (extractedPricing prev) (new_pricing (cleanHtmlToText body))"
    unfolding tp(7) using tp(1,2) by auto
  show "\<forall>ch \<in> set (created_changes db (snd (POST_scrape e db (Num (of_nat pid))))).
            oldSnapshotId ch \<noteq> None \<and> newSnapshotId ch \<noteq> None"
    unfolding tp(7) using tp(3-6) by auto
qed

lemma error_keeps_store: "created_changes db db = []"
  by (simp add: created_changes_def)

lemma post_refs:
  "\<forall>ch \<in> set (created_changes db (snd (POST_scrape e db rawPageId))).
      oldSnapshotId ch \<noteq> None \<and> newSnapshotId ch \<noteq> None"
proof (cases "parsePageId rawPageId")
  case None
  then show ?thesis by (simp add: POST_scrape_def error_keeps_store)
next
  case (Some idv)
  show ?thesis
  proof (cases "of_int \<lfloor>idv\<rfloor> = idv")
    case False
    with Some show ?thesis by (simp add: POST_scrape_def error_keeps_store)
  next
    case True
    from Some have raw: "rawPageId = Num idv" "0 < idv"
      by (auto simp: parsePageId_def split: jsnumber.splits if_splits)
    define pid where "pid = nat \<lfloor>idv\<rfloor>"
    have "0 < (of_int \<lfloor>idv\<rfloor> :: rat)" unfolding True by (rule raw(2))
    then have "0 < \<lfloor>idv\<rfloor>" by (simp only: of_int_0_less_iff)
    then have p0: "0 < pid" by (simp add: pid_def)
    have "(of_nat pid :: rat) = of_int \<lfloor>idv\<rfloor>"
      using \<open>0 < \<lfloor>idv\<rfloor>\<close> by (simp add: pid_def of_nat_nat)
    with True have "idv = of_nat pid" by (simp only:)
    note pid = p0 this
    show ?thesis
    proof (cases "findUnique_page db pid")
      case None
      with Some True show ?thesis by (simp add: POST_scrape_def error_keeps_store Let_def pid_def)
    next
      case pg: (Some pg)
      show ?thesis
      proof (cases "scrapePage (fetch e) (page_url pg)")
        case (Inl err)
        with Some True pg show ?thesis
          by (simp add: POST_scrape_def error_keeps_store Let_def pid_def)
      next
        case (Inr res)
        then obtain st body where f: "fetch e (page_url pg) = Response st body" "response_ok st"
          by (auto simp: scrapePage_def split: fetch_outcome.splits if_splits)
        show ?thesis
        proof (cases "findFirst_snapshot db pid")
          case None
          then show ?thesis
            unfolding raw(1) pid(2) post_success [OF pid(1) pg f]
            by (simp add: create_snapshot_def Let_def created_changes_def)
        next
          case prev: (Some prev)
          from post_changes [OF pid(1) pg f prev] show ?thesis
            unfolding raw(1) pid(2) by auto
        qed
      qed
    qed
  qed
qed

lemma compare_keeps_snapshots:
  "snapshots (snd (snd (compare_snapshots e db pid prev new txt))) = snapshots db"
  by (simp add: compare_snapshots_def create_change_def Let_def split: prod.splits)

lemma post_run:
  assumes "0 < pid" and "findUnique_page db pid = Some pg"
    and "fetch e (page_url pg) = Response st body" and "200 \<le> st" and "st < 300"
  shows "\<exists>s ch hc m. fst (POST_scrape e db (Num (of_nat pid))) = Created s ch hc m
       \<and> created_snapshots db (snd (POST_scrape e db (Num (of_nat pid)))) = [s]
       \<and> snap_monitoredPageId s = pid
       \<and> text_of s = cleanHtmlToText body
       \<and> extractedPricing s = new_pricing (cleanHtmlToText body)"
proof -
  have ok: "response_ok st" using assms(4,5) by (simp add: response_ok_iff)
  let ?txt = "cleanHtmlToText body"
  obtain ns db1 where c: "create_snapshot db pid body ?txt (now e) (new_pricing ?txt) = (ns, db1)"
    by (cases "create_snapshot db pid body ?txt (now e) (new_pricing ?txt)")
  then have ns: "snapshots db1 = snapshots db @ [ns]" "snap_monitoredPageId ns = pid"
    "text_of ns = ?txt" "extractedPricing ns = new_pricing ?txt"
    by (auto simp: create_snapshot_def Let_def text_of_def)
  show ?thesis
  proof (cases "findFirst_snapshot db pid")
    case None
    have "POST_scrape e db (Num (of_nat pid)) = (Created ns None False msg_no_change, db1)"
      unfolding post_success [OF assms(1-3) ok] by (simp add: Let_def c None)
    with ns show ?thesis by (auto simp: created_snapshots_def)
  next
    case (Some prev)
    obtain ch hc db2 where k: "compare_snapshots e db1 pid prev ns ?txt = (ch, hc, db2)"
      by (cases "compare_snapshots e db1 pid prev ns ?txt") auto
    have "snapshots db2 = snapshots db1"
      using compare_keeps_snapshots [of e db1 pid prev ns ?txt] by (simp add: k)
    moreover have "POST_scrape e db (Num (of_nat pid))
        = (Created ns ch hc (if hc then msg_change else msg_no_change), db2)"
      unfolding post_success [OF assms(1-3) ok] by (simp add: Let_def c Some k)
    ultimately show ?thesis using ns by (auto simp: created_snapshots_def)
  qed
qed

definition example_page :: MonitoredPage where
  "example_page = \<lparr>page_id = 1, page_competitorId = 1, page_url = js ''u'', page_pageType = PRICING\<rparr>"

definition example_snapshot :: Snapshot where
  "example_snapshot =
     \<lparr>snap_id = 1, snap_monitoredPageId = 1, capturedAt = 0, rawHtml = None,
      extractedText = Some (js ''0123456789012345678901234''), extractedPricing = None\<rparr>"

lemma example_store_page: "findUnique_page example_store 1 = Some example_page"
  by (simp add: findUnique_page_def example_store_def example_page_def)

lemma example_store_prior: "findFirst_snapshot example_store 1 = Some example_snapshot"
  by (simp add: findFirst_snapshot_def example_store_def example_snapshot_def)

definition example_env_20 :: env where
  "example_env_20 = \<lparr>fetch = (\<lambda>u. Response 200 (js ''49$ab'')), now = 5, numstr = (\<lambda>q. js ''5'')\<rparr>"

lemma clean_example_20: "cleanHtmlToText (js ''49$ab'') = js ''49$ab''"
  by (rule cleanHtmlToText_plain [OF _ newlines_unmatched])
    (simp_all add: js_def trim_def is_space_def)

lemma clean_empty: "cleanHtmlToText [] = []"
  by (rule cleanHtmlToText_plain [OF _ newlines_unmatched]) (simp_all add: trim_def)

definition example_snapshot_20 :: Snapshot where
  "example_snapshot_20 =
     \<lparr>snap_id = 1, snap_monitoredPageId = 1, capturedAt = 0, rawHtml = None,
      extractedText = Some (js ''01234567890123456789''), extractedPricing = None\<rparr>"

definition example_store_20 :: store where
  "example_store_20 = example_store\<lparr>snapshots := [example_snapshot_20]\<rparr>"

definition example_env_empty :: env where
  "example_env_empty = \<lparr>fetch = (\<lambda>u. Response 200 []), now = 5, numstr = (\<lambda>q. js ''5'')\<rparr>"

lemma example_store_20_page: "findUnique_page example_store_20 1 = Some example_page"
  by (simp add: findUnique_page_def example_store_20_def example_store_def example_page_def)

lemma example_store_20_prior: "findFirst_snapshot example_store_20 1 = Some example_snapshot_20"
  by (simp add: findFirst_snapshot_def example_store_20_def example_snapshot_20_def)

definition item_usd :: PricingItem where
  "item_usd = \<lparr>label = Some (js ''49$''), amount = Some (Num 49), currency = Some (js ''USD''),
                rawLine = js ''49$''\<rparr>"

definition item_eur :: PricingItem where
  "item_eur = \<lparr>label = Some (js ''49eur''), amount = Some (Num 49),
                currency = Some (js ''EUR''), rawLine = js ''49eur''\<rparr>"

definition example_snapshot_priced :: Snapshot where
  "example_snapshot_priced =
     \<lparr>snap_id = 1, snap_monitoredPageId = 1, capturedAt = 0, rawHtml = None,
      extractedText = Some (js ''0123456789012345678901234''),
      extractedPricing = Some [item_eur, item_usd]\<rparr>"

definition example_store_priced :: store where
  "example_store_priced = example_store\<lparr>snapshots := [example_snapshot_priced]\<rparr>"

definition example_html :: jsstring where
  "example_html = js ''49$'' @ [10] @ js ''49eur''"

definition example_text :: jsstring where
  "example_text = js ''49$'' @ [10] @ js ''49eur''"

definition example_env_priced :: env where
  "example_env_priced =
     \<lparr>fetch = (\<lambda>u. Response 200 example_html), now = 5, numstr = (\<lambda>q. js ''49'')\<rparr>"

lemma clean_example_html: "cleanHtmlToText example_html = example_text"
  unfolding example_text_def example_html_def
  by (rule cleanHtmlToText_plain [OF _ newlines_unmatched])
    (simp_all add: js_def trim_def is_space_def)

lemma line_item_usd: "line_item (js ''49$'') = Some item_usd"
  using number_js_49 by (simp add: price_eval item_usd_def)

lemma line_item_eur: "line_item (js ''49eur'') = Some item_eur"
  using number_js_49 by (simp add: price_eval item_eur_def)

lemma example_lines: "text_lines example_text = [js ''49$'', js ''49eur'']"
  by (simp add: text_lines_def trim_def js_def is_space_def example_text_def)

lemma example_new_pricing: "new_pricing example_text = Some [item_usd, item_eur]"
proof -
  have "example_text \<noteq> []" by (simp add: example_text_def js_def)
  then have "extractPricingFromText (Some example_text) = [item_usd, item_eur]"
    by (simp add: extract_eq example_lines List.map_filter_def line_item_usd line_item_eur
        MAX_ITEMS_def)
  then show ?thesis by (simp add: new_pricing_def)
qed

lemma example_store_priced_page: "findUnique_page example_store_priced 1 = Some example_page"
  by (simp add: findUnique_page_def example_store_priced_def example_store_def example_page_def)

lemma example_store_priced_prior:
  "findFirst_snapshot example_store_priced 1 = Some example_snapshot_priced"
  by (simp add: findFirst_snapshot_def example_store_priced_def example_snapshot_priced_def)

lemma example_prints_apart:
  "prints_apart (\<lambda>q. js ''49'') ([item_eur, item_usd] @ [item_usd, item_eur])"
  by (simp add: prints_apart_def amounts_of_def item_eur_def item_usd_def js_def)

lemma example_items_differ: "[item_eur, item_usd] \<noteq> [item_usd, item_eur]"
  by (simp add: item_eur_def item_usd_def js_def)

definition example_env_offline :: env where
  "example_env_offline = \<lparr>fetch = (\<lambda>u. NetworkError), now = 5, numstr = (\<lambda>q. js ''5'')\<rparr>"

definition example_env_503 :: env where
  "example_env_503 = \<lparr>fetch = (\<lambda>u. Response 503 (js ''49$'')), now = 5, numstr = (\<lambda>q. js ''5'')\<rparr>"

definition example_store_new :: store where
  "example_store_new = example_store\<lparr>snapshots := [], next_snapshot_id := 1\<rparr>"

lemma example_store_new_page: "findUnique_page example_store_new 1 = Some example_page"
  by (simp add: findUnique_page_def example_store_new_def example_store_def example_page_def)

section \<open>Reports: lemmas and examples\<close>
















section \<open>The claims\<close>

text \<open>
  C1, as the code has it. On a capture run for a page that has a prior capture, the run
  compares with the latest capture \<open>prev\<close> of the page and stores one capture \<open>new\<close>. A change
  of type TEXT is created if and only if the text of \<open>new\<close> differs from the text of \<open>prev\<close>
  and either the two lengths differ by more than 20 or the new text is empty. In particular,
  when the texts differ, the new text is not empty and the lengths differ by exactly 20, no
  TEXT change is created; when the texts differ and the lengths differ by 21 or more, a TEXT
  change is created.
\<close>

theorem C1_text_change_iff:
  assumes "0 < pid" and "findUnique_page db pid = Some pg"
    and "fetch e (page_url pg) = Response st body" and "200 \<le> st" and "st < 300"
    and "findFirst_snapshot db pid = Some prev"
  shows "\<exists>new. created_snapshots db (snd (POST_scrape e db (Num (of_nat pid)))) = [new]
       \<and> prev \<in> set (snapshots db) \<and> snap_monitoredPageId prev = pid
       \<and> (\<forall>s \<in> set (snapshots db). snap_monitoredPageId s = pid \<longrightarrow> capturedAt s \<le> capturedAt prev)
       \<and> ((\<exists>ch \<in> set (created_changes db (snd (POST_scrape e db (Num (of_nat pid))))).
              changeType ch = TEXT)
            \<longleftrightarrow> text_of prev \<noteq> text_of new \<and>
                (20 < nat \<bar>int (length (text_of new)) - int (length (text_of prev))\<bar>
                 \<or> text_of new = []))
       \<and> (text_of prev \<noteq> text_of new \<and> text_of new \<noteq> []
             \<and> nat \<bar>int (length (text_of new)) - int (length (text_of prev))\<bar> = 20
           \<longrightarrow> \<not> (\<exists>ch \<in> set (created_changes db (snd (POST_scrape e db (Num (of_nat pid))))).
                    changeType ch = TEXT))
       \<and> (text_of prev \<noteq> text_of new
             \<and> 21 \<le> nat \<bar>int (length (text_of new)) - int (length (text_of prev))\<bar>
           \<longrightarrow> (\<exists>ch \<in> set (created_changes db (snd (POST_scrape e db (Num (of_nat pid))))).
                    changeType ch = TEXT))"
proof -
  from post_run [OF assms(1-5)] obtain new where n:
    "created_snapshots db (snd (POST_scrape e db (Num (of_nat pid)))) = [new]"
    "text_of new = cleanHtmlToText body" by blast
  note l = findFirst_latest [OF assms(6)]
  note c = text_changes(1) [OF assms]
  show ?thesis
    by (rule exI [of _ new]) (use n l in \<open>auto simp: c text_change_due_def\<close>)
qed

text \<open>
  Two runs on the example store, whose prior text has 25 characters: a new text of 3
  characters (a difference of 22) gives a TEXT change, a new text of 5 characters (a
  difference of exactly 20) gives none.
\<close>

theorem C1_text_change_iff_witness:
  "(\<exists>ch \<in> set (created_changes example_store
                 (snd (POST_scrape example_env example_store (Num (of_nat 1))))).
      changeType ch = TEXT)
   \<and> \<not> (\<exists>ch \<in> set (created_changes example_store
                 (snd (POST_scrape example_env_20 example_store (Num (of_nat 1))))).
          changeType ch = TEXT)"
proof -
  have t: "text_of example_snapshot = js ''0123456789012345678901234''"
    by (simp add: text_of_def example_snapshot_def)
  have f: "fetch example_env (page_url example_page) = Response 200 (js ''49$'')"
    by (simp add: example_env_def)
  have f20: "fetch example_env_20 (page_url example_page) = Response 200 (js ''49$ab'')"
    by (simp add: example_env_20_def)
  from post_run [of 1, OF _ example_store_page f] obtain s where s:
    "created_snapshots example_store (snd (POST_scrape example_env example_store (Num (of_nat 1)))) = [s]"
    "text_of s = js ''49$''" by (auto simp: clean_example)
  from post_run [of 1, OF _ example_store_page f20] obtain s' where s':
    "created_snapshots example_store (snd (POST_scrape example_env_20 example_store (Num (of_nat 1)))) = [s']"
    "text_of s' = js ''49$ab''" by (auto simp: clean_example_20)
  from C1_text_change_iff [of 1, OF _ example_store_page f _ _ example_store_prior] s
  have 1: "\<exists>ch \<in> set (created_changes example_store
                 (snd (POST_scrape example_env example_store (Num (of_nat 1))))).
      changeType ch = TEXT" by (auto simp: t js_def)
  from C1_text_change_iff [of 1, OF _ example_store_page f20 _ _ example_store_prior] s'
  have 2: "\<not> (\<exists>ch \<in> set (created_changes example_store
                 (snd (POST_scrape example_env_20 example_store (Num (of_nat 1))))).
          changeType ch = TEXT)" by (auto simp: t js_def)
  from 1 2 show ?thesis by blast
qed

text \<open>
  C1 as stated fails where the new text is empty: the prior text has 20 characters and the new
  text none, so the texts differ and the lengths differ by exactly 20, and yet a TEXT change
  is created.
\<close>

theorem C1_empty_text_at_delta_20_counterexample:
  "findFirst_snapshot example_store_20 1 = Some example_snapshot_20
   \<and> text_of example_snapshot_20 = js ''01234567890123456789''
   \<and> length (js ''01234567890123456789'') = 20
   \<and> map text_of (created_snapshots example_store_20
        (snd (POST_scrape example_env_empty example_store_20 (Num 1)))) = [[]]
   \<and> map changeType (created_changes example_store_20
        (snd (POST_scrape example_env_empty example_store_20 (Num 1)))) = [TEXT]"
proof -
  have t: "text_of example_snapshot_20 = js ''01234567890123456789''"
    by (simp add: text_of_def example_snapshot_20_def)
  have f: "fetch example_env_empty (page_url example_page) = Response 200 []"
    by (simp add: example_env_empty_def)
  have ok: "response_ok 200" by (simp add: response_ok_def)
  have np: "new_pricing [] = None" by (simp add: new_pricing_def extractPricingFromText_def)
  have 1: "text_change_due (text_of example_snapshot_20) (cleanHtmlToText [])"
    by (simp add: text_change_due_def t clean_empty js_def)
  have 2: "\<not> price_change_due (numstr example_env_empty) (extractedPricing example_snapshot_20)
       (new_pricing (cleanHtmlToText []))"
    by (simp add: price_change_due_def clean_empty np example_snapshot_20_def)
  from post_changes [of 1, OF _ example_store_20_page f ok example_store_20_prior] 1 2
  have c: "map changeType (created_changes example_store_20
        (snd (POST_scrape example_env_empty example_store_20 (Num 1)))) = [TEXT]" by auto
  from post_run [of 1, OF _ example_store_20_page f]
  have s: "map text_of (created_snapshots example_store_20
        (snd (POST_scrape example_env_empty example_store_20 (Num 1)))) = [[]]"
    by (auto simp: clean_empty)
  from example_store_20_prior t c s show ?thesis by (simp add: js_def)
qed

text \<open>
  C2. On a capture run for a page that has a prior capture \<open>prev\<close>, with \<open>new\<close> the capture the
  run stores, and whatever the comparison of the texts gives: a change of type PRICE is
  created if and only if the JSON texts of the pricing of \<open>prev\<close> and of the pricing of \<open>new\<close>
  differ and one of the two pricings is not null. The comparison tells orders apart: when
  the two captures hold the same items in different orders, a PRICE change is created. (The
  printing of numbers is a parameter of the model; for this the amounts that occur are to be
  printed without a comma and different amounts differently, as JavaScript prints them.)
\<close>

theorem C2_price_change_iff:
  assumes "0 < pid" and "findUnique_page db pid = Some pg"
    and "fetch e (page_url pg) = Response st body" and "200 \<le> st" and "st < 300"
    and "findFirst_snapshot db pid = Some prev"
  shows "\<exists>new. created_snapshots db (snd (POST_scrape e db (Num (of_nat pid)))) = [new]
       \<and> ((\<exists>ch \<in> set (created_changes db (snd (POST_scrape e db (Num (of_nat pid))))).
              changeType ch = PRICE)
            \<longleftrightarrow> JSON_stringify (numstr e) (extractedPricing prev)
                  \<noteq> JSON_stringify (numstr e) (extractedPricing new)
                \<and> (extractedPricing prev \<noteq> None \<or> extractedPricing new \<noteq> None))
       \<and> (\<forall>xs ys. extractedPricing prev = Some xs \<and> extractedPricing new = Some ys
              \<and> set xs = set ys \<and> xs \<noteq> ys \<and> prints_apart (numstr e) (xs @ ys)
            \<longrightarrow> (\<exists>ch \<in> set (created_changes db (snd (POST_scrape e db (Num (of_nat pid))))).
                    changeType ch = PRICE))"
proof -
  from post_run [OF assms(1-5)] obtain new where n:
    "created_snapshots db (snd (POST_scrape e db (Num (of_nat pid)))) = [new]"
    "extractedPricing new = new_pricing (cleanHtmlToText body)" by blast
  note c = text_changes(2) [OF assms]
  have "\<forall>xs ys. extractedPricing prev = Some xs \<and> extractedPricing new = Some ys
              \<and> set xs = set ys \<and> xs \<noteq> ys \<and> prints_apart (numstr e) (xs @ ys)
            \<longrightarrow> price_change_due (numstr e) (extractedPricing prev) (extractedPricing new)"
    using price_change_order printed_apart_new n(2) by metis
  then show ?thesis
    by (intro exI [of _ new]) (use n in \<open>auto simp: c price_change_due_def\<close>)
qed

text \<open>
  A run on a page whose prior capture holds the items \<open>49eur\<close>, \<open>49$\<close> and whose new text has
  the lines \<open>49$\<close>, \<open>49eur\<close>: the same two items in the other order, and a PRICE change.
\<close>

theorem C2_price_change_iff_witness:
  "\<exists>new. created_snapshots example_store_priced
            (snd (POST_scrape example_env_priced example_store_priced (Num (of_nat 1)))) = [new]
     \<and> extractedPricing example_snapshot_priced = Some [item_eur, item_usd]
     \<and> extractedPricing new = Some [item_usd, item_eur]
     \<and> (\<exists>ch \<in> set (created_changes example_store_priced
                 (snd (POST_scrape example_env_priced example_store_priced (Num (of_nat 1))))).
          changeType ch = PRICE)"
proof -
  have f: "fetch example_env_priced (page_url example_page) = Response 200 example_html"
    by (simp add: example_env_priced_def)
  have p: "extractedPricing example_snapshot_priced = Some [item_eur, item_usd]"
    by (simp add: example_snapshot_priced_def)
  have a: "prints_apart (numstr example_env_priced) ([item_eur, item_usd] @ [item_usd, item_eur])"
    using example_prints_apart by (simp add: example_env_priced_def)
  have e: "set [item_eur, item_usd] = set [item_usd, item_eur]" by auto
  from post_run [of 1, OF _ example_store_priced_page f] obtain s where s:
    "created_snapshots example_store_priced
       (snd (POST_scrape example_env_priced example_store_priced (Num (of_nat 1)))) = [s]"
    "extractedPricing s = Some [item_usd, item_eur]"
    by (auto simp: clean_example_html example_new_pricing)
  from C2_price_change_iff [of 1, OF _ example_store_priced_page f _ _ example_store_priced_prior]
    s p a e example_items_differ
  show ?thesis by auto
qed

text \<open>
  C3, as the code has it. For every input the text the normalizer returns has at most 15000
  characters, and the loose pass returns at most 50 items. The structured pass has no bound:
  on the markup made of \<open>n\<close> article blocks, each with a name and a price, it returns \<open>n\<close>
  items, for every \<open>n\<close>.
\<close>

theorem C3_normalizer_and_loose_pass_bounds:
  "length (cleanHtmlToText raw) \<le> 15000
   \<and> length (extractPricingFromText text) \<le> 50
   \<and> (\<forall>n. length (extractPricingFromHtml (concat (replicate n example_article))) = n)"
proof -
  have "length (cleanHtmlToText raw) \<le> 15000"
    by (simp add: cleanHtmlToText_def Let_def slice0_def)
  moreover have "length (extractPricingFromText text) \<le> 50"
  proof (cases "text")
    case None
    then show ?thesis by (simp add: extractPricingFromText_def)
  next
    case (Some t)
    then show ?thesis by (simp add: extract_eq MAX_ITEMS_def)
  qed
  moreover have "\<forall>n. length (extractPricingFromHtml (concat (replicate n example_article))) = n"
    by (simp add: extractPricingFromHtml_def articles_replicate)
  ultimately show ?thesis by blast
qed

text \<open>
  C3 as stated fails for the structured pass: its loop has no limit, and 51 article blocks
  give 51 items.
\<close>

theorem C3_structured_pass_counterexample:
  "length (extractPricingFromHtml (concat (replicate 51 example_article))) = 51"
  by (simp add: extractPricingFromHtml_def articles_replicate)




text \<open>
  C5. When the fetch of the page fails (the request is rejected, or the response has a status
  below 200 or from 300 on), the run answers with the status 500 and the error message, and
  leaves the store as it was: no capture and no change is created. A run that succeeds
  answers with a created capture instead, whether or not it found a change.
\<close>

theorem C5_fetch_failure:
  assumes "0 < pid" and "findUnique_page db pid = Some pg"
    and "fetch e (page_url pg) = NetworkError
         \<or> (\<exists>st body. fetch e (page_url pg) = Response st body \<and> (st < 200 \<or> 300 \<le> st))"
  shows "POST_scrape e db (Num (of_nat pid)) = (ErrorResponse 500 msg_scrape_error, db)
       \<and> created_snapshots db (snd (POST_scrape e db (Num (of_nat pid)))) = []
       \<and> created_changes db (snd (POST_scrape e db (Num (of_nat pid)))) = []"
proof -
  from assms(3) have "fetch e (page_url pg) = NetworkError
         \<or> (\<exists>st body. fetch e (page_url pg) = Response st body \<and> \<not> response_ok st)"
    by (auto simp: response_ok_def)
  from scrapePage_fails [of "fetch e" "page_url pg", OF this] obtain err where
    "scrapePage (fetch e) (page_url pg) = Inl err" by blast
  with assms(1,2) have "POST_scrape e db (Num (of_nat pid)) = (ErrorResponse 500 msg_scrape_error, db)"
    by (simp add: POST_scrape_def parsePageId_nat Let_def)
  then show ?thesis by (simp add: created_snapshots_def created_changes_def)
qed

text \<open>A rejected request and a response with the status 503, on the example store.\<close>

theorem C5_fetch_failure_witness:
  "POST_scrape example_env_offline example_store (Num (of_nat 1))
     = (ErrorResponse 500 msg_scrape_error, example_store)
   \<and> POST_scrape example_env_503 example_store (Num (of_nat 1))
     = (ErrorResponse 500 msg_scrape_error, example_store)"
proof -
  have 1: "fetch example_env_offline (page_url example_page) = NetworkError
         \<or> (\<exists>st body. fetch example_env_offline (page_url example_page) = Response st body
              \<and> (st < 200 \<or> 300 \<le> st))"
    by (simp add: example_env_offline_def)
  have 2: "fetch example_env_503 (page_url example_page) = NetworkError
         \<or> (\<exists>st body. fetch example_env_503 (page_url example_page) = Response st body
              \<and> (st < 200 \<or> 300 \<le> st))"
    by (simp add: example_env_503_def)
  from C5_fetch_failure [of 1, OF _ example_store_page 1]
    C5_fetch_failure [of 1, OF _ example_store_page 2]
  show ?thesis by simp
qed








text \<open>
  C9. On a capture run that fetches the page, for a page with no capture yet: one capture is
  stored, no change is created, and the answer has no change and \<open>hasChange\<close> false. And every
  change a run creates, on any store and for any request, refers to an old and to a new
  capture: neither reference is null.
\<close>

theorem C9_first_capture:
  assumes "0 < pid" and "findUnique_page db pid = Some pg"
    and "fetch e (page_url pg) = Response st body" and "200 \<le> st" and "st < 300"
  shows "((\<forall>s \<in> set (snapshots db). snap_monitoredPageId s \<noteq> pid) \<longrightarrow>
           (\<exists>s. POST_scrape e db (Num (of_nat pid))
                  = (Created s None False msg_no_change,
                     db\<lparr>snapshots := snapshots db @ [s],
                        next_snapshot_id := Suc (next_snapshot_id db)\<rparr>)
                \<and> snap_monitoredPageId s = pid
                \<and> created_snapshots db (snd (POST_scrape e db (Num (of_nat pid)))) = [s]
                \<and> created_changes db (snd (POST_scrape e db (Num (of_nat pid)))) = []))
       \<and> (\<forall>e' db' raw. \<forall>ch \<in> set (created_changes db' (snd (POST_scrape e' db' raw))).
             oldSnapshotId ch \<noteq> None \<and> newSnapshotId ch \<noteq> None)"
proof (intro conjI impI)
  have ok: "response_ok st" using assms(4,5) by (simp add: response_ok_iff)
  assume "\<forall>s \<in> set (snapshots db). snap_monitoredPageId s \<noteq> pid"
  then have none: "findFirst_snapshot db pid = None" by (simp add: findFirst_None)
  show "\<exists>s. POST_scrape e db (Num (of_nat pid))
                  = (Created s None False msg_no_change,
                     db\<lparr>snapshots := snapshots db @ [s],
                        next_snapshot_id := Suc (next_snapshot_id db)\<rparr>)
                \<and> snap_monitoredPageId s = pid
                \<and> created_snapshots db (snd (POST_scrape e db (Num (of_nat pid)))) = [s]
                \<and> created_changes db (snd (POST_scrape e db (Num (of_nat pid)))) = []"
    unfolding post_success [OF assms(1-3) ok]
    by (simp add: none create_snapshot_def Let_def created_snapshots_def created_changes_def)
next
  show "\<forall>e' db' raw. \<forall>ch \<in> set (created_changes db' (snd (POST_scrape e' db' raw))).
             oldSnapshotId ch \<noteq> None \<and> newSnapshotId ch \<noteq> None"
    using post_refs by blast
qed

text \<open>
  A first run on a store without captures, and a run on the example store, whose TEXT change
  has both references.
\<close>

theorem C9_first_capture_witness:
  "(\<exists>s. POST_scrape example_env example_store_new (Num (of_nat 1))
          = (Created s None False msg_no_change,
             example_store_new\<lparr>snapshots := snapshots example_store_new @ [s],
                next_snapshot_id := Suc (next_snapshot_id example_store_new)\<rparr>)
        \<and> snap_monitoredPageId s = 1
        \<and> created_snapshots example_store_new
            (snd (POST_scrape example_env example_store_new (Num (of_nat 1)))) = [s]
        \<and> created_changes example_store_new
            (snd (POST_scrape example_env example_store_new (Num (of_nat 1)))) = [])
   \<and> (\<exists>ch. ch \<in> set (created_changes example_store
                (snd (POST_scrape example_env example_store (Num (of_nat 1)))))
        \<and> oldSnapshotId ch \<noteq> None \<and> newSnapshotId ch \<noteq> None)"
proof -
  have f: "fetch example_env (page_url example_page) = Response 200 (js ''49$'')"
    by (simp add: example_env_def)
  have n: "\<forall>s \<in> set (snapshots example_store_new). snap_monitoredPageId s \<noteq> 1"
    by (simp add: example_store_new_def)
  have t: "text_of example_snapshot = js ''0123456789012345678901234''"
    by (simp add: text_of_def example_snapshot_def)
  have "text_change_due (text_of example_snapshot) (cleanHtmlToText (js ''49$''))"
    unfolding text_change_due_def t clean_example by (simp add: js_def)
  with text_changes(1) [of 1, OF _ example_store_page f _ _ example_store_prior]
  obtain ch where ch: "ch \<in> set (created_changes example_store
                (snd (POST_scrape example_env example_store (Num (of_nat 1)))))" by auto
  from C9_first_capture [of 1, OF _ example_store_new_page f]
    C9_first_capture [of 1, OF _ example_store_page f] n ch
  show ?thesis by auto
qed

text \<open>
  C10. Every item the loose pass returns has a finite number as amount; the currency \<open>EUR\<close>
  or \<open>USD\<close> and no other; a raw line that is a line of the input text with the white space at
  its ends removed (it stands in the text between two line feeds or ends of the text, with
  only white space other than line feeds around it, holds no line feed, is not empty and
  neither starts nor ends with white space); and as label the first 120 characters of that
  raw line.
\<close>

theorem C10_loose_items:
  assumes "it \<in> set (extractPricingFromText text)"
  shows "(\<exists>d. amount it = Some (Num d))
       \<and> (currency it = Some (js ''EUR'') \<or> currency it = Some (js ''USD''))
       \<and> (\<exists>t. text = Some t \<and> trimmed_line_of (rawLine it) t)
       \<and> label it = Some (take 120 (rawLine it))"
proof -
  from extract_item [OF assms] obtain t l where l: "text = Some t" "l \<in> set (split_lines t)"
    "trim l \<noteq> []" "line_item (trim l) = Some it" by blast
  from line_item_Some [OF l(4)] have "(\<exists>d. amount it = Some (Num d))"
    "currency it = Some (js ''EUR'') \<or> currency it = Some (js ''USD'')"
    "rawLine it = trim l" "label it = Some (take 120 (trim l))"
    by (simp_all add: slice0_def)
  with trimmed_line [OF l(2,3)] l(1) show ?thesis by simp
qed

text \<open>
  A text of three lines, the second of 133 characters with white space around it: its item
  has the whole line as raw line and its first 120 characters as label.
\<close>

theorem C10_loose_items_witness:
  "example_long_item \<in> set (extractPricingFromText (Some example_lines_text))
   \<and> amount example_long_item = Some (Num 49)
   \<and> currency example_long_item = Some (js ''USD'')
   \<and> trimmed_line_of example_long_line example_lines_text
   \<and> length example_long_line = 133
   \<and> label example_long_item = Some (take 120 example_long_line)"
proof -
  have m: "example_long_item \<in> set (extractPricingFromText (Some example_lines_text))"
    by (simp add: example_lines_items)
  from C10_loose_items [OF m] m show ?thesis
    by (simp add: example_long_item_def example_long_length)
qed

end
